theory Spec2Isabelle
  imports Main "HOL-Library.Word" "HOL-Library.Code_Target_Nat"
begin

unbundle bit_operations_syntax

section \<open>The V4L2 capture backend of librealsense (src/backends/uvc-v4l2.cpp)\<close>

text \<open>
  The backend talks to the kernel, to libusb and to the consumer's frame callbacks. In
  this embedding every answer of the outside world is an input of the function that asks
  for it (a record of answers, one field per call site), every exception is a value, and
  what the code does to the outside world is the list of events it returns. Console output
  is left out, except the warnings of \<open>warn_error\<close> and the frame line printed by the
  backend's \<open>poll\<close>.
\<close>

subsection \<open>System calls, errors, outcomes\<close>

text \<open>The answer of a system call: its return value and the value of \<open>errno\<close>.\<close>

type_synonym sysret = "int \<times> int"

text \<open>The Linux values of the \<open>errno\<close> codes the code tests (errno.h).\<close>

definition EINTR :: int where "EINTR = 4"
definition EAGAIN :: int where "EAGAIN = 11"
definition EINVAL :: int where "EINVAL = 22"

text \<open>
  Every exception of the file is a \<open>std::runtime_error\<close>. \<open>Runtime_error\<close> carries a
  message built from literals and names; \<open>Os_error\<close> carries the text in front of
  \<open>errno\<close> and \<open>errno\<close> itself (the message goes on with \<open>strerror(errno)\<close>).
  \<open>Bad_function_call\<close> is what calling an empty \<open>std::function\<close> throws.
\<close>

datatype exn = Runtime_error string | Os_error string int | Bad_function_call

text \<open>
  How a call ends: it returns, it throws, it never returns (\<open>xioctl\<close> retrying for ever),
  the process is aborted (a failed \<open>assert\<close>, \<open>std::terminate\<close>), or the behaviour is
  undefined (an index outside a vector).
\<close>

datatype 'a outcome = Returns 'a | Throws exn | Hangs | Aborts | Undefined

text \<open>\<open>throw_error(s)\<close>\<close>

definition throw_error :: "string \<Rightarrow> int \<Rightarrow> 'a outcome" where
  "throw_error s errno = Throws (Os_error (s @ '' error '') errno)"

text \<open>
  \<open>xioctl\<close> repeats the \<open>ioctl\<close> while it fails with \<open>EINTR\<close>. Its argument here is the
  list of answers the kernel gives to the successive attempts; \<open>None\<close> says that the
  answers ran out with every one of them \<open>EINTR\<close>: the loop did not return.
\<close>

fun xioctl :: "sysret list \<Rightarrow> sysret option" where
  "xioctl [] = None"
| "xioctl ((r, errno) # rest) =
     (if r < 0 \<and> errno = EINTR then xioctl rest else Some (r, errno))"

subsection \<open>Data\<close>

text \<open>
  \<open>struct buffer { void * start; size_t length; }\<close>. Addresses and sizes are natural
  numbers; \<open>NULL\<close> is 0 and \<open>MAP_FAILED\<close> is \<open>(void * ) -1\<close>.
\<close>

record buffer =
  start :: nat
  length_buffer :: nat

definition MAP_FAILED :: nat where "MAP_FAILED = 2 ^ 64 - 1"

text \<open>A registered callback is known by a name; an empty \<open>std::function\<close> is \<open>None\<close>.\<close>

type_synonym callback = nat

record subdevice =
  dev_name :: string
  vid :: int
  pid :: int
  mi :: int
  fd :: int
  buffers :: "buffer list"
  width :: int
  height :: int
  format :: int
  fps :: int
  callback :: "callback option"

datatype "context" = Context

text \<open>
  A \<open>std::thread\<close> is either not joinable (no thread of execution) or joinable; the
  streaming thread's closure holds the list of active subdevices.
\<close>

datatype thread = Not_joinable | Joinable "subdevice list"

record device =
  parent :: "context"
  subdevices :: "subdevice list"
  thread :: thread
  stop :: bool
  usb_device :: nat
  usb_handle :: nat
  claimed_interfaces :: "int list"

text \<open>\<open>device(std::shared_ptr<context> parent)\<close>\<close>

definition device_ctor :: "context \<Rightarrow> device" where
  "device_ctor p = \<lparr>parent = p, subdevices = [], thread = Not_joinable, stop = False,
     usb_device = 0, usb_handle = 0, claimed_interfaces = []\<rparr>"

subsection \<open>Formatted input of the standard library\<close>

text \<open>
  The constructor reads its metadata with \<open>operator>>\<close>. These definitions follow the
  standard library (libstdc++, C locale): white space is skipped first; a string is the
  run of characters up to the next white space, and the extraction fails when that run
  is empty; a hexadecimal \<open>int\<close> is an optional sign, an optional \<open>0x\<close>, and the longest
  run of hexadecimal digits, and the extraction fails when there is no digit or the value
  does not fit a 32-bit \<open>int\<close>.
\<close>

definition isspace :: "char \<Rightarrow> bool" where
  "isspace c = (let n = (of_char c :: nat) in n = 32 \<or> (9 \<le> n \<and> n \<le> 13))"

definition hex_digit :: "char \<Rightarrow> nat option" where
  "hex_digit c = (let n = (of_char c :: nat) in
     if 48 \<le> n \<and> n \<le> 57 then Some (n - 48)
     else if 97 \<le> n \<and> n \<le> 102 then Some (n - 87)
     else if 65 \<le> n \<and> n \<le> 70 then Some (n - 55)
     else None)"

definition is_hex :: "char \<Rightarrow> bool" where
  "is_hex c = (hex_digit c \<noteq> None)"

text \<open>\<open>is >> word\<close> on a stream holding \<open>s\<close>\<close>

definition extract_string :: "string \<Rightarrow> string option" where
  "extract_string s =
     (let w = takeWhile (\<lambda>c. \<not> isspace c) (dropWhile isspace s)
      in if w = [] then None else Some w)"

text \<open>The digits are accumulated from the left, as \<open>num_get\<close> does.\<close>

fun accumulate_hex :: "int \<Rightarrow> string \<Rightarrow> int" where
  "accumulate_hex acc [] = acc"
| "accumulate_hex acc (c # cs) =
     (case hex_digit c of None \<Rightarrow> acc | Some d \<Rightarrow> accumulate_hex (16 * acc + int d) cs)"

definition strip_0x :: "string \<Rightarrow> string" where
  "strip_0x s = (case s of
       c0 # c1 # rest \<Rightarrow>
         if c0 = CHR ''0'' \<and> (c1 = CHR ''x'' \<or> c1 = CHR ''X'') then rest else s
     | _ \<Rightarrow> s)"

text \<open>\<open>is >> std::hex >> n\<close> for an \<open>int n\<close>, on a stream holding \<open>s\<close>\<close>

definition extract_hex :: "string \<Rightarrow> int option" where
  "extract_hex s =
     (let t = dropWhile isspace s;
          negative = (t \<noteq> [] \<and> hd t = CHR ''-'');
          u = (if t \<noteq> [] \<and> (hd t = CHR ''-'' \<or> hd t = CHR ''+'') then tl t else t);
          ds = takeWhile is_hex (strip_0x u);
          v = accumulate_hex 0 ds;
          n = (if negative then - v else v)
      in if ds = [] then None
         else if n < - (2 ^ 31) \<or> 2 ^ 31 - 1 < n then None
         else Some n)"

subsection \<open>Constructing a subdevice\<close>

text \<open>
  What the system answers while the node \<open>name\<close> is opened: \<open>stat\<close> and whether the node
  is a character device, the contents of the two sysfs files (\<open>None\<close>: the file cannot
  be opened), \<open>open\<close> (its return value is the descriptor), the capability query with the
  capability word it fills in, and the two cropping calls. The constructor does not
  initialise \<open>fps\<close>: the value it happens to have is \<open>fps_indeterminate\<close>.
\<close>

record node =
  stat_ret :: sysret
  is_chr :: bool
  modalias_file :: "string option"
  bInterfaceNumber_file :: "string option"
  open_ret :: sysret
  querycap :: "sysret list"
  capabilities :: "32 word"
  cropcap :: "sysret list"
  s_crop :: "sysret list"
  fps_indeterminate :: int

definition V4L2_CAP_VIDEO_CAPTURE :: "32 word" where "V4L2_CAP_VIDEO_CAPTURE = 0x00000001"
definition V4L2_CAP_STREAMING :: "32 word" where "V4L2_CAP_STREAMING = 0x04000000"

text \<open>
  The metadata part of the constructor: the modalias word and the three numbers.
  \<open>substr(5,4)\<close> is \<open>take 4 (drop 5 m)\<close>; the length test comes first, so \<open>m ! 9\<close> is
  in range where it is read.
\<close>

definition parse_ids :: "node \<Rightarrow> (int \<times> int \<times> int) outcome" where
  "parse_ids k =
     (case (case modalias_file k of None \<Rightarrow> None | Some s \<Rightarrow> extract_string s) of
        None \<Rightarrow> Throws (Runtime_error ''Failed to read modalias'')
      | Some modalias \<Rightarrow>
          if length modalias < 14 \<or> take 5 modalias \<noteq> ''usb:v'' \<or> modalias ! 9 \<noteq> CHR ''p''
          then Throws (Runtime_error ''Not a usb format modalias'')
          else
            (case extract_hex (take 4 (drop 5 modalias)) of
               None \<Rightarrow> Throws (Runtime_error ''Failed to read vendor ID'')
             | Some v \<Rightarrow>
                 (case extract_hex (take 4 (drop 10 modalias)) of
                    None \<Rightarrow> Throws (Runtime_error ''Failed to read product ID'')
                  | Some p \<Rightarrow>
                      (case (case bInterfaceNumber_file k of None \<Rightarrow> None
                             | Some s \<Rightarrow> extract_hex s) of
                         None \<Rightarrow> Throws (Runtime_error ''Failed to read interface number'')
                       | Some m \<Rightarrow> Returns (v, p, m)))))"

text \<open>The rest of the constructor: open the node, check its capabilities, reset cropping.\<close>

definition open_node :: "string \<Rightarrow> node \<Rightarrow> int outcome" where
  "open_node dev k =
     (if fst (open_ret k) < 0
      then Throws (Os_error (''Cannot open '' @ [CHR 0x27] @ dev @ [CHR 0x27] @ '': '')
                     (snd (open_ret k)))
      else
        (case xioctl (querycap k) of
           None \<Rightarrow> Hangs
         | Some (r, errno) \<Rightarrow>
             if r < 0 then
               (if errno = EINVAL then Throws (Runtime_error (dev @ '' is no V4L2 device''))
                else throw_error ''VIDIOC_QUERYCAP'' errno)
             else if capabilities k AND V4L2_CAP_VIDEO_CAPTURE = 0
               then Throws (Runtime_error (dev @ '' is no video capture device''))
             else if capabilities k AND V4L2_CAP_STREAMING = 0
               then Throws (Runtime_error (dev @ '' does not support streaming I/O''))
             else
               (case xioctl (cropcap k) of
                  None \<Rightarrow> Hangs
                | Some (rc, _) \<Rightarrow>
                    if rc = 0 then
                      (case xioctl (s_crop k) of
                         None \<Rightarrow> Hangs
                       | Some _ \<Rightarrow> Returns (fst (open_ret k)))
                    else Returns (fst (open_ret k)))))"

text \<open>\<open>subdevice::subdevice(const std::string & name)\<close>\<close>

definition subdevice_ctor :: "string \<Rightarrow> node \<Rightarrow> subdevice outcome" where
  "subdevice_ctor name k =
     (let dev = ''/dev/'' @ name in
      if fst (stat_ret k) < 0
      then Throws (Os_error (''Cannot identify '' @ [CHR 0x27] @ dev @ [CHR 0x27] @ '': '')
                     (snd (stat_ret k)))
      else if \<not> is_chr k then Throws (Runtime_error (dev @ '' is no device''))
      else
        (case parse_ids k of
           Returns (v, p, m) \<Rightarrow>
             (case open_node dev k of
                Returns f \<Rightarrow>
                  Returns \<lparr>dev_name = dev, vid = v, pid = p, mi = m, fd = f, buffers = [],
                           width = 0, height = 0, format = 0, fps = fps_indeterminate k,
                           callback = None\<rparr>
              | Throws e \<Rightarrow> Throws e
              | Hangs \<Rightarrow> Hangs
              | Aborts \<Rightarrow> Aborts
              | Undefined \<Rightarrow> Undefined)
         | Throws e \<Rightarrow> Throws e
         | Hangs \<Rightarrow> Hangs
         | Aborts \<Rightarrow> Aborts
         | Undefined \<Rightarrow> Undefined))"

subsection \<open>Enumeration and grouping\<close>

text \<open>
  \<open>get_vendor_id\<close> and \<open>get_product_id\<close> read \<open>device.subdevices[0]\<close>; on a device
  without subdevices that index is outside the vector (\<open>None\<close>).
\<close>

definition get_vendor_id :: "device \<Rightarrow> int option" where
  "get_vendor_id d = (case subdevices d of [] \<Rightarrow> None | s # _ \<Rightarrow> Some (vid s))"

definition get_product_id :: "device \<Rightarrow> int option" where
  "get_product_id d = (case subdevices d of [] \<Rightarrow> None | s # _ \<Rightarrow> Some (pid s))"

text \<open>\<open>device::has_mi\<close>: the loop over the subdevices, returning at the first match.\<close>

fun has_mi_loop :: "subdevice list \<Rightarrow> int \<Rightarrow> bool" where
  "has_mi_loop [] m = False"
| "has_mi_loop (s # rest) m = (if mi s = m then True else has_mi_loop rest m)"

definition has_mi :: "device \<Rightarrow> int \<Rightarrow> bool" where
  "has_mi d m = has_mi_loop (subdevices d) m"

text \<open>
  The condition of the grouping loop, with the short-circuit order of the source:
  \<open>devices.empty() || vid differs || pid differs || devices.back()->has_mi(sub->mi)\<close>.
\<close>

definition starts_new_device :: "device list \<Rightarrow> subdevice \<Rightarrow> bool option" where
  "starts_new_device devices sub =
     (if devices = [] then Some True
      else (case get_vendor_id (last devices) of
              None \<Rightarrow> None
            | Some v \<Rightarrow>
                if vid sub \<noteq> v then Some True
                else (case get_product_id (last devices) of
                        None \<Rightarrow> None
                      | Some p \<Rightarrow>
                          if pid sub \<noteq> p then Some True
                          else Some (has_mi (last devices) (mi sub)))))"

text \<open>One round of the grouping loop: perhaps a new device, then the subdevice goes to
  the last device.\<close>

definition group_step :: "context \<Rightarrow> device list \<Rightarrow> subdevice \<Rightarrow> device list option" where
  "group_step ctx devices sub =
     (case starts_new_device devices sub of
        None \<Rightarrow> None
      | Some b \<Rightarrow>
          (let devices' = (if b then devices @ [device_ctor ctx] else devices);
               back = last devices'
           in Some (butlast devices' @ [back\<lparr>subdevices := subdevices back @ [sub]\<rparr>])))"

fun group_loop :: "context \<Rightarrow> device list \<Rightarrow> subdevice list \<Rightarrow> device list option" where
  "group_loop ctx devices [] = Some devices"
| "group_loop ctx devices (sub # rest) =
     (case group_step ctx devices sub of
        None \<Rightarrow> None
      | Some devices' \<Rightarrow> group_loop ctx devices' rest)"

text \<open>
  The enumeration loop: one subdevice per directory entry, \<open>.\<close> and \<open>..\<close> skipped; an
  exception of a constructor leaves the loop and the function.
\<close>

fun enumerate_loop :: "subdevice list \<Rightarrow> (string \<times> node) list \<Rightarrow> subdevice list outcome" where
  "enumerate_loop acc [] = Returns acc"
| "enumerate_loop acc ((name, k) # rest) =
     (if name = ''.'' \<or> name = ''..'' then enumerate_loop acc rest
      else (case subdevice_ctor name k of
              Returns sub \<Rightarrow> enumerate_loop (acc @ [sub]) rest
            | Throws e \<Rightarrow> Throws e
            | Hangs \<Rightarrow> Hangs
            | Aborts \<Rightarrow> Aborts
            | Undefined \<Rightarrow> Undefined))"

text \<open>
  \<open>query_devices\<close>. The directory is the list of its entries, each with the answers of
  its node, in the order \<open>readdir\<close> yields them; \<open>None\<close>: \<open>opendir\<close> failed.
\<close>

definition query_devices :: "context \<Rightarrow> (string \<times> node) list option \<Rightarrow> device list outcome" where
  "query_devices ctx dir =
     (case dir of
        None \<Rightarrow> Throws (Runtime_error ''Cannot access /sys/class/video4linux'')
      | Some entries \<Rightarrow>
          (case enumerate_loop [] entries of
             Returns subs \<Rightarrow>
               (case group_loop ctx [] subs of
                  None \<Rightarrow> Undefined
                | Some devices \<Rightarrow> Returns devices)
           | Throws e \<Rightarrow> Throws e
           | Hangs \<Rightarrow> Hangs
           | Aborts \<Rightarrow> Aborts
           | Undefined \<Rightarrow> Undefined))"

subsection \<open>What the code does to the outside world\<close>

text \<open>
  The requests of \<open>xioctl\<close> the file issues; \<open>VIDIOC_REQBUFS\<close> carries the count it asks
  for, the per-buffer requests carry the slot index.
\<close>

datatype request =
    VIDIOC_S_FMT | VIDIOC_G_PARM | VIDIOC_S_PARM
  | VIDIOC_REQBUFS nat | VIDIOC_QUERYBUF nat | VIDIOC_QBUF nat | VIDIOC_DQBUF
  | VIDIOC_STREAMON | VIDIOC_STREAMOFF

text \<open>
  An event is one action on the outside world, in program order: an \<open>xioctl\<close> on a
  descriptor (with all its retries), \<open>select\<close> with its first argument, \<open>mmap\<close> of a slot,
  \<open>munmap\<close> of an address and length, \<open>close\<close>, a warning of \<open>warn_error\<close> with \<open>errno\<close>,
  the line the backend's \<open>poll\<close> prints (descriptor and used bytes), a call of a frame
  callback with one argument (the backend) or two (the stand-alone program), a store to
  the device's stop flag, and the return of \<open>std::thread::join\<close>.
\<close>

datatype event =
    Ioctl int request
  | Select int
  | Mmap int nat
  | Munmap nat nat
  | Close int
  | Warn string int
  | Stdout_frame int nat
  | Call1 int callback nat
  | Call2 int callback nat nat
  | Store_stop bool
  | Join

text \<open>The idiom \<open>if(xioctl(fd, R, &arg) < 0) throw_error("R");\<close>\<close>

definition xioctl_or_throw :: "int \<Rightarrow> request \<Rightarrow> string \<Rightarrow> sysret list \<Rightarrow> event list \<times> unit outcome" where
  "xioctl_or_throw f req s answers =
     ([Ioctl f req],
      case xioctl answers of
        None \<Rightarrow> Hangs
      | Some (r, errno) \<Rightarrow> if r < 0 then throw_error s errno else Returns ())"

text \<open>Statements in sequence: the second runs only when the first returned.\<close>

definition and_then :: "event list \<times> unit outcome \<Rightarrow> event list \<times> unit outcome \<Rightarrow> event list \<times> unit outcome" where
  "and_then a b = (case snd a of Returns _ \<Rightarrow> (fst a @ fst b, snd b) | _ \<Rightarrow> a)"

subsection \<open>Starting the capture of a subdevice\<close>

text \<open>
  The kernel's answers to \<open>start_capture\<close>: the three format calls, the buffer request
  and the count the kernel wrote back into \<open>req.count\<close>, and for each slot the buffer
  query with the length it reports, the address \<open>mmap\<close> returns with its \<open>errno\<close>, and
  the enqueue; at last the stream-on call.
\<close>

record capture =
  s_fmt :: "sysret list"
  g_parm :: "sysret list"
  s_parm :: "sysret list"
  reqbufs :: "sysret list"
  granted :: nat
  querybuf :: "nat \<Rightarrow> sysret list"
  buf_length :: "nat \<Rightarrow> nat"
  mmap_ret :: "nat \<Rightarrow> nat"
  mmap_errno :: "nat \<Rightarrow> int"
  qbuf :: "nat \<Rightarrow> sysret list"
  streamon :: "sysret list"

text \<open>\<open>std::vector::resize\<close>: cut, or fill up with value-initialised buffers.\<close>

definition resize :: "nat \<Rightarrow> buffer list \<Rightarrow> buffer list" where
  "resize n bufs = take n bufs @ replicate (n - length bufs) \<lparr>start = 0, length_buffer = 0\<rparr>"

text \<open>The request for four buffers, with its two errors and the test of the count.\<close>

definition request_buffers :: "capture \<Rightarrow> subdevice \<Rightarrow> event list \<times> unit outcome" where
  "request_buffers k s =
     ([Ioctl (fd s) (VIDIOC_REQBUFS 4)],
      case xioctl (reqbufs k) of
        None \<Rightarrow> Hangs
      | Some (r, errno) \<Rightarrow>
          if r < 0 then
            (if errno = EINVAL
             then Throws (Runtime_error (dev_name s @ '' does not support memory mapping''))
             else throw_error ''VIDIOC_REQBUFS'' errno)
          else if granted k < 2
            then Throws (Runtime_error (''Insufficient buffer memory on '' @ dev_name s))
          else Returns ())"

text \<open>
  The mapping loop, over the slot indices \<open>0 ..< buffers.size()\<close>. The address is stored
  in the slot before it is compared with \<open>MAP_FAILED\<close>.
\<close>

fun map_loop :: "capture \<Rightarrow> int \<Rightarrow> buffer list \<Rightarrow> nat list \<Rightarrow> event list \<times> buffer list \<times> unit outcome" where
  "map_loop k f bufs [] = ([], bufs, Returns ())"
| "map_loop k f bufs (i # rest) =
     (case xioctl (querybuf k i) of
        None \<Rightarrow> ([Ioctl f (VIDIOC_QUERYBUF i)], bufs, Hangs)
      | Some (r, errno) \<Rightarrow>
          if r < 0 then ([Ioctl f (VIDIOC_QUERYBUF i)], bufs, throw_error ''VIDIOC_QUERYBUF'' errno)
          else
            (let bufs' = bufs[i := \<lparr>start = mmap_ret k i, length_buffer = buf_length k i\<rparr>]
             in if mmap_ret k i = MAP_FAILED
                then ([Ioctl f (VIDIOC_QUERYBUF i), Mmap f i], bufs',
                      throw_error ''mmap'' (mmap_errno k i))
                else (case map_loop k f bufs' rest of
                        (ev, bufs'', out) \<Rightarrow>
                          (Ioctl f (VIDIOC_QUERYBUF i) # Mmap f i # ev, bufs'', out))))"

text \<open>The loop that enqueues every slot.\<close>

fun queue_loop :: "capture \<Rightarrow> int \<Rightarrow> nat list \<Rightarrow> event list \<times> unit outcome" where
  "queue_loop k f [] = ([], Returns ())"
| "queue_loop k f (i # rest) =
     and_then (xioctl_or_throw f (VIDIOC_QBUF i) ''VIDIOC_QBUF'' (qbuf k i)) (queue_loop k f rest)"

text \<open>\<open>subdevice::start_capture()\<close>: the events, the subdevice afterwards, the outcome.\<close>

definition start_capture :: "capture \<Rightarrow> subdevice \<Rightarrow> event list \<times> subdevice \<times> unit outcome" where
  "start_capture k s =
     (let negotiated =
            and_then (xioctl_or_throw (fd s) VIDIOC_S_FMT ''VIDIOC_S_FMT'' (s_fmt k))
           (and_then (xioctl_or_throw (fd s) VIDIOC_G_PARM ''VIDIOC_G_PARM'' (g_parm k))
           (and_then (xioctl_or_throw (fd s) VIDIOC_S_PARM ''VIDIOC_S_PARM'' (s_parm k))
                     (request_buffers k s)))
      in case snd negotiated of
           Returns _ \<Rightarrow>
             (let sized = resize (granted k) (buffers s)
              in case map_loop k (fd s) sized [0 ..< length sized] of
                   (ev, bufs, out) \<Rightarrow>
                     (case out of
                        Returns _ \<Rightarrow>
                          (case and_then (queue_loop k (fd s) [0 ..< length bufs])
                                  (xioctl_or_throw (fd s) VIDIOC_STREAMON ''VIDIOC_STREAMON'' (streamon k)) of
                             (ev', out') \<Rightarrow> (fst negotiated @ ev @ ev', s\<lparr>buffers := bufs\<rparr>, out'))
                      | _ \<Rightarrow> (fst negotiated @ ev, s\<lparr>buffers := bufs\<rparr>, out)))
         | _ \<Rightarrow> (fst negotiated, s, snd negotiated))"

text \<open>\<open>subdevice::set_format\<close>\<close>

definition set_format :: "int \<Rightarrow> int \<Rightarrow> int \<Rightarrow> int \<Rightarrow> callback option \<Rightarrow> subdevice \<Rightarrow> subdevice" where
  "set_format w h fourcc rate cb s =
     s\<lparr>width := w, height := h, format := fourcc, fps := rate, callback := cb\<rparr>"

subsection \<open>Destroying a subdevice\<close>

text \<open>
  The answers to the destructor: stream-off, \<open>munmap\<close> of each slot, the request for
  zero buffers, and \<open>close\<close>.
\<close>

record teardown =
  streamoff :: "sysret list"
  munmap_ret :: "nat \<Rightarrow> sysret"
  release :: "sysret list"
  close_ret :: sysret

text \<open>The unmapping loop: a failure is a warning, the loop goes on.\<close>

fun unmap_loop :: "teardown \<Rightarrow> buffer list \<Rightarrow> nat list \<Rightarrow> event list" where
  "unmap_loop k bufs [] = []"
| "unmap_loop k bufs (i # rest) =
     (Munmap (start (bufs ! i)) (length_buffer (bufs ! i))
        # (if fst (munmap_ret k i) < 0 then [Warn ''munmap'' (snd (munmap_ret k i))] else []))
     @ unmap_loop k bufs rest"

text \<open>
  The body of \<open>subdevice::~subdevice()\<close>, statement by statement; where it executes
  \<open>throw\<close> its outcome is \<open>Throws\<close>.
\<close>

definition subdevice_dtor_body :: "teardown \<Rightarrow> subdevice \<Rightarrow> event list \<times> unit outcome" where
  "subdevice_dtor_body k s =
     (case xioctl (streamoff k) of
        None \<Rightarrow> ([Ioctl (fd s) VIDIOC_STREAMOFF], Hangs)
      | Some (r, errno) \<Rightarrow>
          (let stopped = Ioctl (fd s) VIDIOC_STREAMOFF
                 # (if r < 0 then [Warn ''VIDIOC_STREAMOFF'' errno] else []);
               unmapped = unmap_loop k (buffers s) [0 ..< length (buffers s)];
               before = stopped @ unmapped @ [Ioctl (fd s) (VIDIOC_REQBUFS 0)]
           in case xioctl (release k) of
                None \<Rightarrow> (before, Hangs)
              | Some (r', errno') \<Rightarrow>
                  if r' < 0 then
                    (if errno' = EINVAL
                     then (before, Throws (Runtime_error (dev_name s @ '' does not support memory mapping'')))
                     else (before, throw_error ''VIDIOC_REQBUFS'' errno'))
                  else (before @ Close (fd s)
                          # (if fst (close_ret k) < 0 then [Warn ''close'' (snd (close_ret k))] else []),
                        Returns ())))"

text \<open>
  A function that is \<open>noexcept\<close>: an exception that leaves its body calls
  \<open>std::terminate\<close>, and the process is aborted.
\<close>

definition noexcept :: "event list \<times> unit outcome \<Rightarrow> event list \<times> unit outcome" where
  "noexcept a = (case snd a of Throws e \<Rightarrow> (fst a, Aborts) | _ \<Rightarrow> a)"

text \<open>
  \<open>subdevice::~subdevice()\<close>. The destructor is declared without an exception
  specification and the destructors of its members do not throw, so under C++11 (the
  file uses \<open>auto\<close>, lambdas and \<open>std::unique_ptr\<close>) it is implicitly \<open>noexcept\<close>.
\<close>

definition subdevice_dtor :: "teardown \<Rightarrow> subdevice \<Rightarrow> event list \<times> unit outcome" where
  "subdevice_dtor k s = noexcept (subdevice_dtor_body k s)"

subsection \<open>The poll dispatcher\<close>

text \<open>
  What one call of \<open>poll\<close> meets at one subdevice of its list: whether \<open>FD_ISSET\<close> holds
  after \<open>select\<close>, the answers to the dequeue, the slot index and the used-byte count the
  kernel wrote into the buffer structure, and the answers to the enqueue that follows the
  callback.
\<close>

record round =
  ready :: bool
  dqbuf :: "sysret list"
  index :: nat
  bytesused :: nat
  requeue :: "sysret list"

text \<open>
  The dispatch loop of the backend (src/backends/uvc-v4l2.cpp). Its callback has the type
  \<open>std::function<void(const void * )>\<close>: it receives the address of the slot.
\<close>

fun poll_loop :: "(subdevice \<times> round) list \<Rightarrow> event list \<times> unit outcome" where
  "poll_loop [] = ([], Returns ())"
| "poll_loop ((sub, k) # rest) =
     (if \<not> ready k then poll_loop rest
      else
        (case xioctl (dqbuf k) of
           None \<Rightarrow> ([Ioctl (fd sub) VIDIOC_DQBUF], Hangs)
         | Some (r, errno) \<Rightarrow>
             if r < 0 then
               (if errno = EAGAIN then ([Ioctl (fd sub) VIDIOC_DQBUF], Returns ())
                else ([Ioctl (fd sub) VIDIOC_DQBUF], throw_error ''VIDIOC_DQBUF'' errno))
             else if \<not> index k < length (buffers sub)
               then ([Ioctl (fd sub) VIDIOC_DQBUF], Aborts)
             else
               (case callback sub of
                  None \<Rightarrow>
                    ([Ioctl (fd sub) VIDIOC_DQBUF, Stdout_frame (fd sub) (bytesused k)],
                     Throws Bad_function_call)
                | Some cb \<Rightarrow>
                    and_then
                      ([Ioctl (fd sub) VIDIOC_DQBUF, Stdout_frame (fd sub) (bytesused k),
                        Call1 (fd sub) cb (start (buffers sub ! index k)),
                        Ioctl (fd sub) (VIDIOC_QBUF (index k))],
                       snd (xioctl_or_throw (fd sub) (VIDIOC_QBUF (index k)) ''VIDIOC_QBUF'' (requeue k)))
                      (poll_loop rest))))"

text \<open>
  \<open>subdevice::poll\<close> of the backend: \<open>select\<close> over the descriptors, then the loop. The
  answer of \<open>select\<close> is an input, as are the \<open>ready\<close> flags it leaves in the set.
\<close>

definition poll :: "sysret \<Rightarrow> (subdevice \<times> round) list \<Rightarrow> event list \<times> unit outcome" where
  "poll selected subs =
     (let max_fd = foldl max 0 (map (\<lambda>(sub, k). fd sub) subs)
      in if fst selected < 0 then
           (if snd selected = EINTR then ([Select (max_fd + 1)], Returns ())
            else ([Select (max_fd + 1)], throw_error ''select'' (snd selected)))
         else and_then ([Select (max_fd + 1)], Returns ()) (poll_loop subs))"

text \<open>
  The dispatch loop of the stand-alone test program (the second source file). Its
  subdevice class has the same descriptor and buffers; its callback has the type
  \<open>std::function<void(const void *, size_t)>\<close> and receives the address and
  \<open>buf.bytesused\<close>. Nothing is printed.
\<close>

fun poll_loop_standalone :: "(subdevice \<times> round) list \<Rightarrow> event list \<times> unit outcome" where
  "poll_loop_standalone [] = ([], Returns ())"
| "poll_loop_standalone ((sub, k) # rest) =
     (if \<not> ready k then poll_loop_standalone rest
      else
        (case xioctl (dqbuf k) of
           None \<Rightarrow> ([Ioctl (fd sub) VIDIOC_DQBUF], Hangs)
         | Some (r, errno) \<Rightarrow>
             if r < 0 then
               (if errno = EAGAIN then ([Ioctl (fd sub) VIDIOC_DQBUF], Returns ())
                else ([Ioctl (fd sub) VIDIOC_DQBUF], throw_error ''VIDIOC_DQBUF'' errno))
             else if \<not> index k < length (buffers sub)
               then ([Ioctl (fd sub) VIDIOC_DQBUF], Aborts)
             else
               (case callback sub of
                  None \<Rightarrow> ([Ioctl (fd sub) VIDIOC_DQBUF], Throws Bad_function_call)
                | Some cb \<Rightarrow>
                    and_then
                      ([Ioctl (fd sub) VIDIOC_DQBUF,
                        Call2 (fd sub) cb (start (buffers sub ! index k)) (bytesused k),
                        Ioctl (fd sub) (VIDIOC_QBUF (index k))],
                       snd (xioctl_or_throw (fd sub) (VIDIOC_QBUF (index k)) ''VIDIOC_QBUF'' (requeue k)))
                      (poll_loop_standalone rest))))"

definition poll_standalone :: "sysret \<Rightarrow> (subdevice \<times> round) list \<Rightarrow> event list \<times> unit outcome" where
  "poll_standalone selected subs =
     (let max_fd = foldl max 0 (map (\<lambda>(sub, k). fd sub) subs)
      in if fst selected < 0 then
           (if snd selected = EINTR then ([Select (max_fd + 1)], Returns ())
            else ([Select (max_fd + 1)], throw_error ''select'' (snd selected)))
         else and_then ([Select (max_fd + 1)], Returns ()) (poll_loop_standalone subs))"

subsection \<open>The device: USB interfaces and the streaming thread\<close>

text \<open>
  \<open>claim_interface\<close>. \<open>status\<close> is what \<open>libusb_claim_interface\<close> returns for this
  handle and interface number; \<open>libusb_error_name\<close> is libusb's table of names.
\<close>

definition claim_interface :: "(int \<Rightarrow> string) \<Rightarrow> int \<Rightarrow> int \<Rightarrow> device \<Rightarrow> device \<times> unit outcome" where
  "claim_interface libusb_error_name status interface_number d =
     (if status < 0
      then (d, Throws (Runtime_error (''libusb_claim_interface(...) returned '' @ libusb_error_name status)))
      else (d\<lparr>claimed_interfaces := claimed_interfaces d @ [interface_number]\<rparr>, Returns ()))"

text \<open>
  The loop of \<open>start_streaming\<close> over the device's subdevices: those with a callback are
  started and collected. \<open>answers i\<close> is what the kernel answers to the subdevice at
  position \<open>i\<close>. The loop returns the events, the subdevices as they are afterwards, the
  collected ones, and the outcome.
\<close>

fun start_loop :: "(nat \<Rightarrow> capture) \<Rightarrow> nat \<Rightarrow> subdevice list \<Rightarrow> event list \<times> subdevice list \<times> subdevice list \<times> unit outcome" where
  "start_loop answers i [] = ([], [], [], Returns ())"
| "start_loop answers i (sub # rest) =
     (if callback sub \<noteq> None then
        (case start_capture (answers i) sub of
           (ev, sub', out) \<Rightarrow>
             (case out of
                Returns _ \<Rightarrow>
                  (case start_loop answers (Suc i) rest of
                     (ev', rest', subs, out') \<Rightarrow> (ev @ ev', sub' # rest', sub' # subs, out'))
              | _ \<Rightarrow> (ev, sub' # rest, [], out)))
      else
        (case start_loop answers (Suc i) rest of
           (ev', rest', subs, out') \<Rightarrow> (ev', sub # rest', subs, out')))"

text \<open>
  \<open>start_streaming\<close>. Assigning a new \<open>std::thread\<close> to \<open>device.thread\<close> while that is
  joinable calls \<open>std::terminate\<close>.
\<close>

definition start_streaming :: "(nat \<Rightarrow> capture) \<Rightarrow> device \<Rightarrow> event list \<times> device \<times> unit outcome" where
  "start_streaming answers d =
     (case start_loop answers 0 (subdevices d) of
        (ev, subs', active, out) \<Rightarrow>
          (case out of
             Returns _ \<Rightarrow>
               (case thread d of
                  Joinable _ \<Rightarrow> (ev, d\<lparr>subdevices := subs'\<rparr>, Aborts)
                | Not_joinable \<Rightarrow> (ev, d\<lparr>subdevices := subs', thread := Joinable active\<rparr>, Returns ()))
           | _ \<Rightarrow> (ev, d\<lparr>subdevices := subs'\<rparr>, out)))"

text \<open>
  The streaming thread runs \<open>while(!device.stop) subdevice::poll(subs);\<close>. When
  \<open>stop_streaming\<close> calls \<open>join\<close>, the thread is either at the test of the flag
  (\<open>None\<close>) or inside one call of \<open>poll\<close>, which meets the given answers. After that call
  the thread tests the flag: set, it leaves the loop and \<open>join\<close> returns; not set, it
  goes on polling and \<open>join\<close> does not return. An exception that leaves the thread's
  function calls \<open>std::terminate\<close>. The flag is a \<open>volatile bool\<close>; a store is taken to
  be seen by the thread's next test.
\<close>

definition thread_rest :: "bool \<Rightarrow> subdevice list \<Rightarrow> (sysret \<times> (nat \<Rightarrow> round)) option \<Rightarrow> event list \<times> unit outcome" where
  "thread_rest flag subs inflight =
     (let polled = (case inflight of
                      None \<Rightarrow> ([], Returns ())
                    | Some (selected, answers) \<Rightarrow>
                        poll selected (zip subs (map answers [0 ..< length subs])))
      in case snd polled of
           Returns _ \<Rightarrow> if flag then (fst polled @ [Join], Returns ()) else (fst polled, Hangs)
         | Throws e \<Rightarrow> (fst polled, Aborts)
         | _ \<Rightarrow> polled)"

text \<open>\<open>stop_streaming\<close>\<close>

definition stop_streaming :: "(sysret \<times> (nat \<Rightarrow> round)) option \<Rightarrow> device \<Rightarrow> event list \<times> device \<times> unit outcome" where
  "stop_streaming inflight d =
     (case thread d of
        Not_joinable \<Rightarrow> ([], d, Returns ())
      | Joinable subs \<Rightarrow>
          (let d1 = d\<lparr>stop := True\<rparr>
           in case thread_rest (stop d1) subs inflight of
                (ev, out) \<Rightarrow>
                  (case out of
                     Returns _ \<Rightarrow>
                       (Store_stop True # ev @ [Store_stop False],
                        d1\<lparr>thread := Not_joinable, stop := False\<rparr>, Returns ())
                   | _ \<Rightarrow> (Store_stop True # ev, d1, out))))"

section \<open>Notions used by the properties\<close>

text \<open>
  What a device of a grouping looks like: it has a subdevice, all its subdevices carry
  the vendor and product id of the first, and their interface indices differ.
\<close>

definition grouped :: "device \<Rightarrow> bool" where
  "grouped d = (subdevices d \<noteq> []
     \<and> list_all (\<lambda>s. vid s = vid (hd (subdevices d)) \<and> pid s = pid (hd (subdevices d))) (subdevices d)
     \<and> distinct (map mi (subdevices d)))"

text \<open>
  The value a string of hexadecimal digits encodes, by position: the specification's
  reading of the metadata, to be compared with what the constructor extracts.
\<close>

fun hex_value :: "string \<Rightarrow> int" where
  "hex_value [] = 0"
| "hex_value (c # cs) =
     (case hex_digit c of None \<Rightarrow> 0 | Some d \<Rightarrow> int d) * 16 ^ length cs + hex_value cs"

text \<open>
  A subdevice of the list that the dispatch loop gets past: its descriptor is not ready,
  or its buffer is dequeued, lies in the pool, goes to a registered callback and is
  enqueued again, every call succeeding.
\<close>

definition passes :: "subdevice \<times> round \<Rightarrow> bool" where
  "passes p = (case p of (sub, k) \<Rightarrow>
     if ready k then
       (case xioctl (dqbuf k) of
          None \<Rightarrow> False
        | Some (r, errno) \<Rightarrow>
            0 \<le> r \<and> index k < length (buffers sub) \<and> callback sub \<noteq> None
            \<and> (case xioctl (requeue k) of None \<Rightarrow> False | Some (r', errno') \<Rightarrow> 0 \<le> r'))
     else True)"

text \<open>The events that are calls of a frame callback.\<close>

definition is_call :: "event \<Rightarrow> bool" where
  "is_call ev = (case ev of Call1 f cb a \<Rightarrow> True | Call2 f cb a n \<Rightarrow> True | _ \<Rightarrow> False)"

text \<open>The calls of a frame callback for the subdevice with descriptor \<open>f\<close>.\<close>

definition is_call_on :: "int \<Rightarrow> event \<Rightarrow> bool" where
  "is_call_on f ev = (case ev of Call1 f' cb a \<Rightarrow> f' = f | Call2 f' cb a n \<Rightarrow> f' = f | _ \<Rightarrow> False)"

subsection \<open>Concrete inputs\<close>

text \<open>A subdevice with given vendor id, product id and interface index.\<close>

definition test_subdevice :: "int \<Rightarrow> int \<Rightarrow> int \<Rightarrow> subdevice" where
  "test_subdevice v p m = \<lparr>dev_name = ''/dev/video0'', vid = v, pid = p, mi = m, fd = 3,
     buffers = [], width = 0, height = 0, format = 0, fps = 0, callback = None\<rparr>"

text \<open>
  A capture node that opens as descriptor \<open>f\<close>, with the given contents of its
  \<open>modalias\<close> and \<open>bInterfaceNumber\<close> files; it has no cropping.
\<close>

definition test_node :: "string \<Rightarrow> string \<Rightarrow> int \<Rightarrow> node" where
  "test_node m i f = \<lparr>stat_ret = (0, 0), is_chr = True, modalias_file = Some m,
     bInterfaceNumber_file = Some i, open_ret = (f, 0), querycap = [(0, 0)],
     capabilities = 0x04000001, cropcap = [(- 1, 22)], s_crop = [], fps_indeterminate = 0\<rparr>"

text \<open>A registry with a two-stream camera and a one-stream camera.\<close>

definition test_dir :: "(string \<times> node) list" where
  "test_dir =
     [(''.'', test_node [] [] 0), (''..'', test_node [] [] 0),
      (''video0'', test_node ''usb:v8086p0A66d0100dcEFdsc02dp01ic0Eisc01ip00in00'' ''00'' 3),
      (''video1'', test_node ''usb:v8086p0A66d0100dcEFdsc02dp01ic0Eisc01ip00in02'' ''02'' 4),
      (''video2'', test_node ''usb:v8086p0A80d0100dcEFdsc02dp01ic0Eisc01ip00in00'' ''00'' 5)]"

definition test_found :: "string \<Rightarrow> int \<Rightarrow> int \<Rightarrow> int \<Rightarrow> subdevice" where
  "test_found dev p m f = \<lparr>dev_name = dev, vid = 0x8086, pid = p, mi = m, fd = f,
     buffers = [], width = 0, height = 0, format = 0, fps = 0, callback = None\<rparr>"

definition test_devices :: "device list" where
  "test_devices =
     [(device_ctor Context)\<lparr>subdevices :=
         [test_found ''/dev/video0'' 0xA66 0 3, test_found ''/dev/video1'' 0xA66 2 4]\<rparr>,
      (device_ctor Context)\<lparr>subdevices := [test_found ''/dev/video2'' 0xA80 0 5]\<rparr>]"

text \<open>
  A subdevice that is streaming on descriptor \<open>f\<close>, with a pool of two mapped buffers
  and the given callback.
\<close>

definition test_started :: "int \<Rightarrow> callback option \<Rightarrow> subdevice" where
  "test_started f cb = (test_subdevice 1 1 0)\<lparr>fd := f,
     buffers := [\<lparr>start = 4096, length_buffer = 614400\<rparr>, \<lparr>start = 8192, length_buffer = 614400\<rparr>],
     callback := cb\<rparr>"

text \<open>
  A round in which the descriptor is ready and the dequeue, once interrupted, yields slot
  \<open>i\<close> with \<open>n\<close> used bytes; and a round in which the dequeue reports \<open>EAGAIN\<close>.
\<close>

definition test_frame :: "nat \<Rightarrow> nat \<Rightarrow> round" where
  "test_frame i n = \<lparr>ready = True, dqbuf = [(- 1, 4), (0, 0)], index = i, bytesused = n,
     requeue = [(0, 0)]\<rparr>"

definition test_eagain :: round where
  "test_eagain = \<lparr>ready = True, dqbuf = [(- 1, 11)], index = 0, bytesused = 0, requeue = []\<rparr>"

text \<open>A kernel that accepts the format and grants \<open>n\<close> buffers.\<close>

definition test_capture :: "nat \<Rightarrow> capture" where
  "test_capture n = \<lparr>s_fmt = [(0, 0)], g_parm = [(- 1, 4), (0, 0)], s_parm = [(0, 0)],
     reqbufs = [(0, 0)], granted = n, querybuf = (\<lambda>i. [(0, 0)]), buf_length = (\<lambda>i. 614400),
     mmap_ret = (\<lambda>i. 4096 * (i + 1)), mmap_errno = (\<lambda>i. 0), qbuf = (\<lambda>i. [(0, 0)]),
     streamon = [(0, 0)]\<rparr>"

text \<open>
  The teardown of a camera that has been unplugged: stream-off fails with \<open>ENODEV\<close>,
  unmapping the first slot and \<open>close\<close> fail; the buffer release answers as given.
\<close>

definition test_teardown :: "sysret \<Rightarrow> teardown" where
  "test_teardown released = \<lparr>streamoff = [(- 1, 19)],
     munmap_ret = (\<lambda>i. if i = 0 then (- 1, 22) else (0, 0)),
     release = [released], close_ret = (- 1, 9)\<rparr>"

text \<open>A device with an open USB handle, and a device whose streaming thread runs.\<close>

definition test_device :: device where
  "test_device = (device_ctor Context)\<lparr>subdevices := [test_subdevice 1 1 0], usb_handle := 1\<rparr>"

definition test_streaming :: device where
  "test_streaming = (device_ctor Context)\<lparr>subdevices := [test_started 3 (Some 7)],
     thread := Joinable [test_started 3 (Some 7)]\<rparr>"

section \<open>System calls\<close>

text \<open>What \<open>xioctl\<close> returns is never a failure with \<open>EINTR\<close>.\<close>

lemma xioctl_not_interrupted:
  "xioctl answers = Some (r, errno) \<Longrightarrow> \<not> (r < 0 \<and> errno = EINTR)"
proof (induction answers)
  case Nil
  then show ?case by simp
next
  case (Cons a answers)
  obtain r0 e0 where a: "a = (r0, e0)" by (cases a)
  show ?case
  proof (cases "r0 < 0 \<and> e0 = EINTR")
    case True
    with Cons.prems a have "xioctl answers = Some (r, errno)" by simp
    then show ?thesis by (rule Cons.IH)
  next
    case False
    with Cons.prems a show ?thesis by auto
  qed
qed

text \<open>Sequencing: a statement that returned hands over to the next, any other end stays.\<close>

lemma and_then_Returns [simp]: "and_then (ev, Returns u) b = (ev @ fst b, snd b)"
  by (simp add: and_then_def)

lemma and_then_stops: "out \<noteq> Returns () \<Longrightarrow> and_then (ev, out) b = (ev, out)"
  by (cases out) (simp_all add: and_then_def)

section \<open>Grouping\<close>

lemma has_mi_loop_iff: "has_mi_loop ss m = (m \<in> mi ` set ss)"
  by (induction ss) auto

lemma starts_new_device_False:
  assumes "starts_new_device devices sub = Some False"
  shows "devices \<noteq> [] \<and> subdevices (last devices) \<noteq> []
       \<and> vid sub = vid (hd (subdevices (last devices)))
       \<and> pid sub = pid (hd (subdevices (last devices)))
       \<and> mi sub \<notin> mi ` set (subdevices (last devices))"
proof -
  have ne: "devices \<noteq> []"
    using assms by (auto simp: starts_new_device_def)
  then obtain s ss where sub: "subdevices (last devices) = s # ss"
    using assms by (cases "subdevices (last devices)") (auto simp: starts_new_device_def get_vendor_id_def)
  show ?thesis
    using assms ne sub
    by (auto simp: starts_new_device_def get_vendor_id_def get_product_id_def has_mi_def
          has_mi_loop_iff split: if_splits)
qed

lemma starts_new_device_defined:
  assumes "list_all grouped devices"
  shows "starts_new_device devices sub \<noteq> None"
proof (cases "devices = []")
  case True
  then show ?thesis by (simp add: starts_new_device_def)
next
  case False
  then have "last devices \<in> set devices" by simp
  with assms have "grouped (last devices)" by (simp add: list_all_iff)
  then obtain s ss where "subdevices (last devices) = s # ss"
    by (cases "subdevices (last devices)") (auto simp: grouped_def)
  then show ?thesis
    using False by (auto simp: starts_new_device_def get_vendor_id_def get_product_id_def)
qed

lemma grouped_new: "grouped ((device_ctor ctx)\<lparr>subdevices := subdevices (device_ctor ctx) @ [sub]\<rparr>)"
  by (simp add: grouped_def device_ctor_def)

lemma grouped_append:
  assumes "grouped d" "vid sub = vid (hd (subdevices d))" "pid sub = pid (hd (subdevices d))"
    "mi sub \<notin> mi ` set (subdevices d)"
  shows "grouped (d\<lparr>subdevices := subdevices d @ [sub]\<rparr>)"
  using assms by (auto simp: grouped_def)

lemma group_step_grouped:
  assumes "list_all grouped devices" "group_step ctx devices sub = Some devices'"
  shows "list_all grouped devices'"
proof -
  from assms(2) obtain b where b: "starts_new_device devices sub = Some b"
    by (auto simp: group_step_def split: option.splits)
  show ?thesis
  proof (cases b)
    case True
    with b assms(2) have "devices' = devices @ [(device_ctor ctx)\<lparr>subdevices := subdevices (device_ctor ctx) @ [sub]\<rparr>]"
      by (simp add: group_step_def Let_def)
    with assms(1) show ?thesis by (simp add: grouped_new)
  next
    case False
    with b have f: "devices \<noteq> []" "vid sub = vid (hd (subdevices (last devices)))"
      "pid sub = pid (hd (subdevices (last devices)))" "mi sub \<notin> mi ` set (subdevices (last devices))"
      using starts_new_device_False [of devices sub] by simp_all
    from False b assms(2) have eq: "devices' = butlast devices @ [(last devices)\<lparr>subdevices := subdevices (last devices) @ [sub]\<rparr>]"
      by (simp add: group_step_def Let_def)
    from f(1) assms(1) have "grouped (last devices)" by (simp add: list_all_iff)
    then have "grouped ((last devices)\<lparr>subdevices := subdevices (last devices) @ [sub]\<rparr>)"
      using f by (intro grouped_append)
    moreover have "list_all grouped (butlast devices)"
      using assms(1) by (auto simp: list_all_iff dest: in_set_butlastD)
    ultimately show ?thesis by (simp add: eq)
  qed
qed

lemma group_loop_grouped:
  "list_all grouped devices \<Longrightarrow> group_loop ctx devices subs = Some devices' \<Longrightarrow> list_all grouped devices'"
proof (induction subs arbitrary: devices)
  case Nil
  then show ?case by simp
next
  case (Cons sub rest)
  from Cons.prems(2) obtain ds where ds: "group_step ctx devices sub = Some ds"
    and rest: "group_loop ctx ds rest = Some devices'"
    by (cases "group_step ctx devices sub") auto
  from Cons.prems(1) ds have "list_all grouped ds" by (rule group_step_grouped)
  then show ?case using rest by (rule Cons.IH)
qed

lemma group_loop_defined:
  "list_all grouped devices \<Longrightarrow> group_loop ctx devices subs \<noteq> None"
proof (induction subs arbitrary: devices)
  case Nil
  then show ?case by simp
next
  case (Cons sub rest)
  from Cons.prems obtain b where b: "starts_new_device devices sub = Some b"
    using starts_new_device_defined by blast
  then obtain ds where ds: "group_step ctx devices sub = Some ds"
    by (simp add: group_step_def Let_def)
  with Cons.prems have "list_all grouped ds" by (rule group_step_grouped)
  then have "group_loop ctx ds rest \<noteq> None" by (rule Cons.IH)
  with ds show ?case by simp
qed

lemma query_devices_Returns:
  "query_devices ctx dir = Returns devices \<Longrightarrow> \<exists>subs. group_loop ctx [] subs = Some devices"
proof -
  assume a: "query_devices ctx dir = Returns devices"
  then obtain entries where "dir = Some entries"
    by (cases dir) (simp_all add: query_devices_def)
  with a obtain subs where "enumerate_loop [] entries = Returns subs"
    by (cases "enumerate_loop [] entries") (simp_all add: query_devices_def)
  with a \<open>dir = Some entries\<close> have "group_loop ctx [] subs = Some devices"
    by (cases "group_loop ctx [] subs") (simp_all add: query_devices_def)
  then show ?thesis ..
qed

lemma group_step_concat:
  assumes "group_step ctx devices sub = Some devices'"
  shows "concat (map subdevices devices') = concat (map subdevices devices) @ [sub]"
proof -
  from assms obtain b where b: "starts_new_device devices sub = Some b"
    by (auto simp: group_step_def split: option.splits)
  show ?thesis
  proof (cases b)
    case True
    with b assms show ?thesis
      by (auto simp: group_step_def Let_def device_ctor_def)
  next
    case False
    with b have ne: "devices \<noteq> []"
      by (auto simp: starts_new_device_def split: if_splits)
    from False b assms have eq: "devices' = butlast devices @ [(last devices)\<lparr>subdevices := subdevices (last devices) @ [sub]\<rparr>]"
      by (simp add: group_step_def Let_def)
    have "concat (map subdevices devices) = concat (map subdevices (butlast devices @ [last devices]))"
      using ne by simp
    then show ?thesis by (simp add: eq)
  qed
qed

lemma group_loop_concat:
  "group_loop ctx devices subs = Some devices' \<Longrightarrow>
   concat (map subdevices devices') = concat (map subdevices devices) @ subs"
proof (induction subs arbitrary: devices)
  case Nil
  then show ?case by simp
next
  case (Cons sub rest)
  from Cons.prems obtain ds where ds: "group_step ctx devices sub = Some ds"
    and rest: "group_loop ctx ds rest = Some devices'"
    by (cases "group_step ctx devices sub") auto
  from Cons.IH [OF rest] group_step_concat [OF ds] show ?case by simp
qed

lemma query_devices_returns:
  assumes "enumerate_loop [] entries = Returns subs"
  shows "\<exists>devices. query_devices ctx (Some entries) = Returns devices"
proof -
  have "group_loop ctx [] subs \<noteq> None"
    by (rule group_loop_defined) simp
  then obtain devices where "group_loop ctx [] subs = Some devices" by blast
  with assms show ?thesis by (simp add: query_devices_def)
qed

text \<open>
  Claim C1. Every device in the list that \<open>query_devices\<close> returns has at least one
  subdevice; all its subdevices have the same vendor id and the same product id; no two
  of them have the same USB interface index.
\<close>

theorem query_devices_grouped:
  assumes "query_devices ctx dir = Returns devices" and "d \<in> set devices"
  shows "subdevices d \<noteq> []
       \<and> (\<forall>a \<in> set (subdevices d). \<forall>b \<in> set (subdevices d). vid a = vid b \<and> pid a = pid b)
       \<and> distinct (map mi (subdevices d))"
proof -
  from assms(1) obtain subs where "group_loop ctx [] subs = Some devices"
    using query_devices_Returns by blast
  then have "list_all grouped devices"
    using group_loop_grouped [of "[]"] by simp
  with assms(2) have g: "grouped d" by (simp add: list_all_iff)
  have same: "vid a = vid b \<and> pid a = pid b"
    if "a \<in> set (subdevices d)" "b \<in> set (subdevices d)" for a b
  proof -
    from g that(1) have "vid a = vid (hd (subdevices d)) \<and> pid a = pid (hd (subdevices d))"
      unfolding grouped_def list_all_iff by blast
    moreover from g that(2) have "vid b = vid (hd (subdevices d)) \<and> pid b = pid (hd (subdevices d))"
      unfolding grouped_def list_all_iff by blast
    ultimately show ?thesis by simp
  qed
  from g have "subdevices d \<noteq> []" "distinct (map mi (subdevices d))"
    unfolding grouped_def by blast+
  with same show ?thesis by blast
qed

theorem query_devices_grouped_witness:
  "query_devices Context (Some test_dir) = Returns test_devices
   \<and> test_devices ! 0 \<in> set test_devices
   \<and> subdevices (test_devices ! 0) \<noteq> []
   \<and> list_all (\<lambda>a. list_all (\<lambda>b. vid a = vid b \<and> pid a = pid b)
                      (subdevices (test_devices ! 0))) (subdevices (test_devices ! 0))
   \<and> distinct (map mi (subdevices (test_devices ! 0)))"
proof -
  have h1: "query_devices Context (Some test_dir) = Returns test_devices"
    by code_simp
  have h2: "test_devices ! 0 \<in> set test_devices"
    by (simp add: test_devices_def)
  from query_devices_grouped [OF h1 h2] h1 h2 show ?thesis
    unfolding list_all_iff by blast
qed

text \<open>
  Claim C5. Grouping keeps the order of the subdevices. Subdevices with the
  (vid, pid, mi) tuples (1,1,0), (1,1,1), (1,2,0), (1,2,1) give exactly two devices of two
  subdevices each; the tuples (1,1,0), (1,1,0), a repeated interface index within one
  vid/pid run, give two devices of one subdevice each. For every sequence the devices'
  subdevices, read in order, are the sequence itself.
\<close>

theorem grouping_examples:
  assumes "(vid a, pid a, mi a) = (1, 1, 0)" "(vid b, pid b, mi b) = (1, 1, 1)"
    "(vid c, pid c, mi c) = (1, 2, 0)" "(vid d, pid d, mi d) = (1, 2, 1)"
    "(vid a', pid a', mi a') = (1, 1, 0)" "(vid b', pid b', mi b') = (1, 1, 0)"
  shows "map_option (map subdevices) (group_loop ctx [] [a, b, c, d]) = Some [[a, b], [c, d]]
       \<and> map_option (map subdevices) (group_loop ctx [] [a', b']) = Some [[a'], [b']]
       \<and> map_option (concat \<circ> map subdevices) (group_loop ctx [] subs) = Some subs"
proof -
  have ex: "map_option (map subdevices) (group_loop ctx [] [a, b, c, d]) = Some [[a, b], [c, d]]
       \<and> map_option (map subdevices) (group_loop ctx [] [a', b']) = Some [[a'], [b']]"
    using assms
    by (simp add: group_step_def starts_new_device_def get_vendor_id_def get_product_id_def
          has_mi_def device_ctor_def)
  have "group_loop ctx [] subs \<noteq> None"
    by (rule group_loop_defined) simp
  then obtain devices where ds: "group_loop ctx [] subs = Some devices" by blast
  from group_loop_concat [OF ds] have "concat (map subdevices devices) = subs" by simp
  with ds ex show ?thesis by simp
qed

theorem grouping_examples_witness:
  "map_option (map subdevices)
     (group_loop Context [] [test_subdevice 1 1 0, test_subdevice 1 1 1,
                             test_subdevice 1 2 0, test_subdevice 1 2 1])
     = Some [[test_subdevice 1 1 0, test_subdevice 1 1 1],
             [test_subdevice 1 2 0, test_subdevice 1 2 1]]
   \<and> map_option (map subdevices) (group_loop Context [] [test_subdevice 1 1 0, test_subdevice 1 1 0])
     = Some [[test_subdevice 1 1 0], [test_subdevice 1 1 0]]
   \<and> map_option (concat \<circ> map subdevices) (group_loop Context [] [test_subdevice 1 2 0])
     = Some [test_subdevice 1 2 0]"
  using grouping_examples [of "test_subdevice 1 1 0" "test_subdevice 1 1 1" "test_subdevice 1 2 0"
      "test_subdevice 1 2 1" "test_subdevice 1 1 0" "test_subdevice 1 1 0" Context
      "[test_subdevice 1 2 0]"]
  by (simp add: test_subdevice_def)

section \<open>Subdevice metadata\<close>

lemma hex_digit_less: "hex_digit c = Some d \<Longrightarrow> d < 16"
  by (auto simp: hex_digit_def Let_def split: if_splits)

lemma is_hex_not_space: "is_hex c \<Longrightarrow> \<not> isspace c"
  by (auto simp: is_hex_def hex_digit_def isspace_def Let_def split: if_splits)

lemma isspace_not_hex: "isspace c \<Longrightarrow> \<not> is_hex c"
  using is_hex_not_space by blast

lemma is_hex_not_sign: "is_hex c \<Longrightarrow> c \<noteq> CHR ''-'' \<and> c \<noteq> CHR ''+''"
  by (auto simp: is_hex_def hex_digit_def)

lemma is_hex_not_x: "is_hex c \<Longrightarrow> c \<noteq> CHR ''x'' \<and> c \<noteq> CHR ''X''"
  by (auto simp: is_hex_def hex_digit_def)

lemma isspace_not_x: "isspace c \<Longrightarrow> c \<noteq> CHR ''x'' \<and> c \<noteq> CHR ''X''"
  by (auto simp: isspace_def)

lemma accumulate_hex_value:
  "list_all is_hex ds \<Longrightarrow> accumulate_hex acc ds = acc * 16 ^ length ds + hex_value ds"
proof (induction ds arbitrary: acc)
  case Nil
  then show ?case by simp
next
  case (Cons c ds)
  then obtain d where d: "hex_digit c = Some d" by (auto simp: is_hex_def)
  from Cons.prems have "list_all is_hex ds" by simp
  then have "accumulate_hex (16 * acc + int d) ds = (16 * acc + int d) * 16 ^ length ds + hex_value ds"
    by (rule Cons.IH)
  with d show ?case by (simp add: algebra_simps)
qed

lemma hex_value_bounds:
  "list_all is_hex ds \<Longrightarrow> 0 \<le> hex_value ds \<and> hex_value ds < 16 ^ length ds"
proof (induction ds)
  case Nil
  then show ?case by simp
next
  case (Cons c ds)
  then obtain d where d: "hex_digit c = Some d" by (auto simp: is_hex_def)
  then have d16: "int d \<le> 15" using hex_digit_less [OF d] by simp
  from Cons have ih: "0 \<le> hex_value ds" "hex_value ds < 16 ^ length ds" by simp_all
  have "int d * 16 ^ length ds \<le> 15 * 16 ^ length ds"
    using d16 by (intro mult_right_mono) simp_all
  with ih have "int d * 16 ^ length ds + hex_value ds < 16 * 16 ^ length ds"
    by linarith
  moreover have "0 \<le> int d * 16 ^ length ds" by simp
  ultimately show ?case using ih(1) d by simp
qed

lemma takeWhile_run:
  assumes "list_all P xs" "ys = [] \<or> \<not> P (hd ys)"
  shows "takeWhile P (xs @ ys) = xs"
proof (cases ys)
  case Nil
  with assms(1) show ?thesis by (simp add: list_all_iff)
next
  case (Cons y ys')
  with assms have "\<not> P y" by simp
  with assms(1) Cons show ?thesis by (simp add: list_all_iff takeWhile_append2)
qed

lemma strip_0x_digits:
  assumes "ds \<noteq> []" "list_all is_hex ds" "trailing = [] \<or> isspace (hd trailing)"
  shows "strip_0x (ds @ trailing) = ds @ trailing"
proof (cases ds)
  case Nil
  with assms(1) show ?thesis by simp
next
  case (Cons c cs)
  show ?thesis
  proof (cases "cs @ trailing")
    case Nil
    with Cons show ?thesis by (simp add: strip_0x_def)
  next
    case (Cons c1 rest)
    have "c1 \<noteq> CHR ''x'' \<and> c1 \<noteq> CHR ''X''"
    proof (cases cs)
      case Nil
      with Cons assms(3) have "isspace c1" by auto
      then show ?thesis by (rule isspace_not_x)
    next
      case (Cons c' cs')
      with \<open>cs @ trailing = c1 # rest\<close> have "c1 = c'" by simp
      with Cons \<open>ds = c # cs\<close> assms(2) have "is_hex c1" by simp
      then show ?thesis by (rule is_hex_not_x)
    qed
    with Cons \<open>ds = c # cs\<close> show ?thesis by (simp add: strip_0x_def)
  qed
qed

lemma extract_hex_digits:
  assumes "ds \<noteq> []" "list_all is_hex ds" "length ds \<le> 7" "trailing = [] \<or> isspace (hd trailing)"
  shows "extract_hex (ds @ trailing) = Some (hex_value ds)"
proof -
  from assms(1) obtain c cs where ds: "ds = c # cs" by (cases ds) auto
  with assms(2) have c: "is_hex c" by simp
  then have nosp: "\<not> isspace c" and nosign: "c \<noteq> CHR ''-''" "c \<noteq> CHR ''+''"
    using is_hex_not_space is_hex_not_sign by blast+
  from nosp ds have t: "dropWhile isspace (ds @ trailing) = ds @ trailing" by simp
  have s: "strip_0x (ds @ trailing) = ds @ trailing"
    by (rule strip_0x_digits [OF assms(1,2,4)])
  from assms(4) have "trailing = [] \<or> \<not> is_hex (hd trailing)"
    using isspace_not_hex by blast
  with assms(2) have tw: "takeWhile is_hex (ds @ trailing) = ds" by (rule takeWhile_run)
  have acc: "accumulate_hex 0 ds = hex_value ds"
    using accumulate_hex_value [OF assms(2), of 0] by simp
  from hex_value_bounds [OF assms(2)] have b: "0 \<le> hex_value ds" "hex_value ds < 16 ^ length ds"
    by simp_all
  have "(16::int) ^ length ds \<le> 16 ^ 7" using assms(3) by (intro power_increasing) simp_all
  with b have r: "hex_value ds < 2 ^ 31" by simp
  have hdne: "hd (ds @ trailing) = c" "ds @ trailing \<noteq> []" using ds by simp_all
  show ?thesis
    unfolding extract_hex_def t Let_def hdne
    using nosign s tw acc b r assms(1) hdne by simp
qed

lemma extract_string_word:
  assumes "w \<noteq> []" "list_all (\<lambda>c. \<not> isspace c) w" "trailing = [] \<or> isspace (hd trailing)"
  shows "extract_string (w @ trailing) = Some w"
proof -
  from assms(1) obtain c cs where w: "w = c # cs" by (cases w) auto
  with assms(2) have "\<not> isspace c" by simp
  with w have d: "dropWhile isspace (w @ trailing) = w @ trailing" by simp
  from assms(3) have "trailing = [] \<or> \<not> (\<lambda>c. \<not> isspace c) (hd trailing)" by simp
  with assms(2) have "takeWhile (\<lambda>c. \<not> isspace c) (w @ trailing) = w" by (rule takeWhile_run)
  with d assms(1) show ?thesis by (simp add: extract_string_def)
qed

lemma parse_ids_well_formed:
  assumes v: "length v = 4" "list_all is_hex v" and p: "length p = 4" "list_all is_hex p"
    and rest: "list_all (\<lambda>c. \<not> isspace c) rest" "trailing = [] \<or> isspace (hd trailing)"
    and mf: "modalias_file k = Some (''usb:v'' @ v @ ''p'' @ p @ rest @ trailing)"
    and m: "bInterfaceNumber_file k = Some (m @ trailing')" "m \<noteq> []" "list_all is_hex m"
       "length m \<le> 7" "trailing' = [] \<or> isspace (hd trailing')"
  shows "parse_ids k = Returns (hex_value v, hex_value p, hex_value m)"
proof -
  let ?w = "''usb:v'' @ v @ ''p'' @ p @ rest"
  have nsv: "list_all (\<lambda>c. \<not> isspace c) v" "list_all (\<lambda>c. \<not> isspace c) p"
    using v(2) p(2) is_hex_not_space by (auto simp: list_all_iff)
  have "list_all (\<lambda>c. \<not> isspace c) ''usb:v''" "list_all (\<lambda>c. \<not> isspace c) ''p''"
    by (simp_all add: isspace_def)
  with nsv rest(1) have ns: "list_all (\<lambda>c. \<not> isspace c) ?w" by simp
  have "extract_string (?w @ trailing) = Some ?w"
    by (rule extract_string_word [OF _ ns rest(2)]) simp
  then have w: "extract_string (''usb:v'' @ v @ ''p'' @ p @ rest @ trailing) = Some ?w" by simp
  have len: "\<not> length ?w < 14" using v(1) p(1) by simp
  have pre: "take 5 ?w = ''usb:v''" by simp
  have p9: "?w ! 9 = CHR ''p''" using v(1) by (simp add: nth_append)
  have tv: "take 4 (drop 5 ?w) = v" using v(1) by simp
  have tp: "take 4 (drop 10 ?w) = p" using v(1) p(1) by simp
  have "v \<noteq> []" "p \<noteq> []" using v(1) p(1) by auto
  then have ev: "extract_hex v = Some (hex_value v)" and ep: "extract_hex p = Some (hex_value p)"
    using extract_hex_digits [of v "[]"] extract_hex_digits [of p "[]"] v p by simp_all
  have em: "extract_hex (m @ trailing') = Some (hex_value m)"
    by (rule extract_hex_digits [OF m(2,3,4,5)])
  show ?thesis
    unfolding parse_ids_def mf m(1) option.case w
    by (simp only: len pre p9 tv tp ev ep em option.case if_False simp_thms)
qed

lemma parse_ids_malformed:
  assumes "modalias_file k = Some content" "extract_string content = Some modalias"
    "length modalias < 14 \<or> take 5 modalias \<noteq> ''usb:v'' \<or> modalias ! 9 \<noteq> CHR ''p''"
  shows "parse_ids k = Throws (Runtime_error ''Not a usb format modalias'')"
  using assms by (auto simp: parse_ids_def)

text \<open>
  Claim C6, as the code has it. A well-formed modalias word is \<open>usb:v\<close>, four
  hexadecimal digits, \<open>p\<close>, four hexadecimal digits and any further characters; a
  well-formed interface-number file holds one to seven hexadecimal digits; each may be
  followed by white space. For well-formed metadata the constructor's vendor id, product
  id and interface index are exactly the values these digits encode, and the subdevice is
  built with them once the node opens. A modalias word that is shorter
  than 14 characters, does not start with \<open>usb:v\<close> or has no \<open>p\<close> behind the vendor
  digits is rejected with the error \<open>Not a usb format modalias\<close>, and no subdevice is
  constructed.
\<close>

theorem subdevice_ctor_metadata:
  "(length v = 4 \<and> list_all is_hex v \<and> length p = 4 \<and> list_all is_hex p
      \<and> list_all (\<lambda>c. \<not> isspace c) rest \<and> (trailing = [] \<or> isspace (hd trailing))
      \<and> modalias_file k = Some (''usb:v'' @ v @ ''p'' @ p @ rest @ trailing)
      \<and> bInterfaceNumber_file k = Some (m @ trailing') \<and> m \<noteq> [] \<and> list_all is_hex m
      \<and> length m \<le> 7 \<and> (trailing' = [] \<or> isspace (hd trailing'))
    \<longrightarrow> parse_ids k = Returns (hex_value v, hex_value p, hex_value m)
      \<and> (0 \<le> fst (stat_ret k) \<and> is_chr k \<and> open_node (''/dev/'' @ name) k = Returns f
           \<longrightarrow> subdevice_ctor name k =
                 Returns \<lparr>dev_name = ''/dev/'' @ name, vid = hex_value v, pid = hex_value p,
                   mi = hex_value m, fd = f, buffers = [], width = 0, height = 0, format = 0,
                   fps = fps_indeterminate k, callback = None\<rparr>))
   \<and> (modalias_file k' = Some content \<and> extract_string content = Some modalias
        \<and> (length modalias < 14 \<or> take 5 modalias \<noteq> ''usb:v'' \<or> modalias ! 9 \<noteq> CHR ''p'')
    \<longrightarrow> parse_ids k' = Throws (Runtime_error ''Not a usb format modalias'')
      \<and> (\<exists>e. subdevice_ctor name k' = Throws e)
      \<and> (0 \<le> fst (stat_ret k') \<and> is_chr k'
           \<longrightarrow> subdevice_ctor name k' = Throws (Runtime_error ''Not a usb format modalias'')))"
proof -
  have wf: "parse_ids k = Returns (hex_value v, hex_value p, hex_value m)"
    if "length v = 4" "list_all is_hex v" "length p = 4" "list_all is_hex p"
      "list_all (\<lambda>c. \<not> isspace c) rest" "trailing = [] \<or> isspace (hd trailing)"
      "modalias_file k = Some (''usb:v'' @ v @ ''p'' @ p @ rest @ trailing)"
      "bInterfaceNumber_file k = Some (m @ trailing')" "m \<noteq> []" "list_all is_hex m"
      "length m \<le> 7" "trailing' = [] \<or> isspace (hd trailing')"
    using that by (rule parse_ids_well_formed)
  have ctor: "subdevice_ctor name k =
                 Returns \<lparr>dev_name = ''/dev/'' @ name, vid = hex_value v, pid = hex_value p,
                   mi = hex_value m, fd = f, buffers = [], width = 0, height = 0, format = 0,
                   fps = fps_indeterminate k, callback = None\<rparr>"
    if "parse_ids k = Returns (hex_value v, hex_value p, hex_value m)"
      "0 \<le> fst (stat_ret k)" "is_chr k" "open_node (''/dev/'' @ name) k = Returns f"
    using that by (simp add: subdevice_ctor_def Let_def)
  have mal: "parse_ids k' = Throws (Runtime_error ''Not a usb format modalias'')"
    if "modalias_file k' = Some content" "extract_string content = Some modalias"
      "length modalias < 14 \<or> take 5 modalias \<noteq> ''usb:v'' \<or> modalias ! 9 \<noteq> CHR ''p''"
    using that by (rule parse_ids_malformed)
  have abort: "(\<exists>e. subdevice_ctor name k' = Throws e)
      \<and> (0 \<le> fst (stat_ret k') \<and> is_chr k'
           \<longrightarrow> subdevice_ctor name k' = Throws (Runtime_error ''Not a usb format modalias''))"
    if "parse_ids k' = Throws (Runtime_error ''Not a usb format modalias'')"
    using that by (simp add: subdevice_ctor_def Let_def)
  from wf ctor mal abort show ?thesis by blast
qed

text \<open>
  Claim C6, the example of the claim: in \<open>usb:v8086pA66Dxxxx\<close> the four characters
  after \<open>p\<close> are \<open>A66D\<close>, so the product id is 0xA66D and not 0xA66.
\<close>

theorem modalias_example_product_id:
  "parse_ids (test_node ''usb:v8086pA66Dxxxx'' ''00'' 3) = Returns (0x8086, 0xA66D, 0)
   \<and> (0xA66D :: int) \<noteq> 0xA66"
  by code_simp

theorem subdevice_ctor_metadata_witness:
  "subdevice_ctor ''video0'' (test_node (''usb:v8086p0A66d0100'' @ [CHR 0x0A]) (''02'' @ [CHR 0x0A]) 3)
     = Returns (test_found ''/dev/video0'' 0xA66 2 3)
   \<and> extract_string ''usb:v8086'' = Some ''usb:v8086'' \<and> length ''usb:v8086'' < (14::nat)
   \<and> subdevice_ctor ''video0'' (test_node ''usb:v8086'' ''00'' 3)
     = Throws (Runtime_error ''Not a usb format modalias'')"
proof -
  let ?k = "test_node (''usb:v8086p0A66d0100'' @ [CHR 0x0A]) (''02'' @ [CHR 0x0A]) 3"
  let ?k' = "test_node ''usb:v8086'' ''00'' 3"
  have a: "length ''8086'' = 4" "list_all is_hex ''8086''" "length ''0A66'' = 4"
    "list_all is_hex ''0A66''" "list_all (\<lambda>c. \<not> isspace c) ''d0100''"
    "[CHR 0x0A] = [] \<or> isspace (hd [CHR 0x0A])"
    "''02'' \<noteq> []" "list_all is_hex ''02''" "length ''02'' \<le> 7"
    by code_simp+
  have b: "modalias_file ?k = Some (''usb:v'' @ ''8086'' @ ''p'' @ ''0A66'' @ ''d0100'' @ [CHR 0x0A])"
    "bInterfaceNumber_file ?k = Some (''02'' @ [CHR 0x0A])"
    "0 \<le> fst (stat_ret ?k)" "is_chr ?k" "open_node (''/dev/'' @ ''video0'') ?k = Returns 3"
    by code_simp+
  have c: "modalias_file ?k' = Some ''usb:v8086''" "extract_string ''usb:v8086'' = Some ''usb:v8086''"
    "length ''usb:v8086'' < (14::nat)" "0 \<le> fst (stat_ret ?k')" "is_chr ?k'"
    by code_simp+
  have d: "hex_value ''8086'' = 0x8086" "hex_value ''0A66'' = 0xA66" "hex_value ''02'' = 2"
    "fps_indeterminate ?k = 0"
    by code_simp+
  note t = subdevice_ctor_metadata [where v = "''8086''" and p = "''0A66''" and rest = "''d0100''"
      and trailing = "[CHR 0x0A]" and k = ?k and m = "''02''" and trailing' = "[CHR 0x0A]"
      and name = "''video0''" and f = 3 and k' = ?k' and content = "''usb:v8086''"
      and modalias = "''usb:v8086''"]
  from t a b have "subdevice_ctor ''video0'' ?k =
                 Returns \<lparr>dev_name = ''/dev/'' @ ''video0'', vid = hex_value ''8086'', pid = hex_value ''0A66'',
                   mi = hex_value ''02'', fd = 3, buffers = [], width = 0, height = 0, format = 0,
                   fps = fps_indeterminate ?k, callback = None\<rparr>"
    by blast
  then have r1: "subdevice_ctor ''video0'' ?k = Returns (test_found ''/dev/video0'' 0xA66 2 3)"
    unfolding d by (simp add: test_found_def)
  from t c have r2: "subdevice_ctor ''video0'' ?k' = Throws (Runtime_error ''Not a usb format modalias'')"
    by blast
  from r1 r2 c(2,3) show ?thesis by blast
qed

section \<open>Buffer pool: start of capture and destruction\<close>

text \<open>
  Claim C4. When the format calls and the buffer request succeed and the kernel grants
  fewer than 2 buffers, \<open>start_capture\<close> throws the insufficient-buffers error after
  exactly the four negotiation calls: nothing is mapped, and the subdevice, its buffer
  list included, is as it was.
\<close>

theorem start_capture_insufficient_buffers:
  assumes "xioctl (s_fmt k) = Some (r1, e1)" "0 \<le> r1"
    and "xioctl (g_parm k) = Some (r2, e2)" "0 \<le> r2"
    and "xioctl (s_parm k) = Some (r3, e3)" "0 \<le> r3"
    and "xioctl (reqbufs k) = Some (r4, e4)" "0 \<le> r4"
    and "granted k < 2"
  shows "start_capture k s =
           ([Ioctl (fd s) VIDIOC_S_FMT, Ioctl (fd s) VIDIOC_G_PARM, Ioctl (fd s) VIDIOC_S_PARM,
             Ioctl (fd s) (VIDIOC_REQBUFS 4)],
            s, Throws (Runtime_error (''Insufficient buffer memory on '' @ dev_name s)))"
  using assms
  by (simp add: start_capture_def xioctl_or_throw_def request_buffers_def)

theorem start_capture_insufficient_buffers_witness:
  "xioctl (s_fmt (test_capture 1)) = Some (0, 0) \<and> (0::int) \<le> 0
   \<and> xioctl (g_parm (test_capture 1)) = Some (0, 0)
   \<and> xioctl (s_parm (test_capture 1)) = Some (0, 0)
   \<and> xioctl (reqbufs (test_capture 1)) = Some (0, 0)
   \<and> granted (test_capture 1) < 2
   \<and> start_capture (test_capture 1) (test_subdevice 1 1 0) =
       ([Ioctl 3 VIDIOC_S_FMT, Ioctl 3 VIDIOC_G_PARM, Ioctl 3 VIDIOC_S_PARM, Ioctl 3 (VIDIOC_REQBUFS 4)],
        test_subdevice 1 1 0, Throws (Runtime_error ''Insufficient buffer memory on /dev/video0''))
   \<and> buffers (fst (snd (start_capture (test_capture 1) (test_subdevice 1 1 0)))) = []"
proof -
  have h: "xioctl (s_fmt (test_capture 1)) = Some (0, 0)" "(0::int) \<le> 0"
    "xioctl (g_parm (test_capture 1)) = Some (0, 0)"
    "xioctl (s_parm (test_capture 1)) = Some (0, 0)"
    "xioctl (reqbufs (test_capture 1)) = Some (0, 0)"
    "granted (test_capture 1) < 2"
    by (simp_all add: test_capture_def EINTR_def)
  from start_capture_insufficient_buffers
         [OF h(1) h(2) h(3) h(2) h(4) h(2) h(5) h(2) h(6), of "test_subdevice 1 1 0"] h
  show ?thesis by (simp add: test_subdevice_def)
qed

lemma unmap_loop_no_close: "Close f \<notin> set (unmap_loop k bufs is)"
  by (induction "is") auto

lemma unmap_loop_unmaps:
  "i \<in> set is \<Longrightarrow> Munmap (start (bufs ! i)) (length_buffer (bufs ! i)) \<in> set (unmap_loop k bufs is)"
  by (induction "is") auto

lemma unmap_loop_warns:
  "i \<in> set is \<Longrightarrow> fst (munmap_ret k i) < 0 \<Longrightarrow>
   Warn ''munmap'' (snd (munmap_ret k i)) \<in> set (unmap_loop k bufs is)"
  by (induction "is") auto

text \<open>
  The steps of the destructor, when the stream-off and release calls return: a failed
  stream-off is a warning; every buffer is unmapped and a failed unmapping is a warning;
  if the release of the buffer pool succeeds the descriptor is closed, a failed \<open>close\<close>
  is a warning, and the destructor returns; if the release fails the body throws, the
  process is aborted, and the descriptor is not closed.
\<close>

lemma subdevice_dtor_steps:
  assumes "xioctl (streamoff k) = Some (r, errno)" and "xioctl (release k) = Some (r', errno')"
  shows "(0 \<le> r' \<longrightarrow>
           subdevice_dtor k s =
             (Ioctl (fd s) VIDIOC_STREAMOFF # (if r < 0 then [Warn ''VIDIOC_STREAMOFF'' errno] else [])
                @ unmap_loop k (buffers s) [0 ..< length (buffers s)]
                @ [Ioctl (fd s) (VIDIOC_REQBUFS 0), Close (fd s)]
                @ (if fst (close_ret k) < 0 then [Warn ''close'' (snd (close_ret k))] else []),
              Returns ()))
       \<and> (r' < 0 \<longrightarrow>
           (\<exists>e. snd (subdevice_dtor_body k s) = Throws e) \<and> snd (subdevice_dtor k s) = Aborts
           \<and> Close (fd s) \<notin> set (fst (subdevice_dtor k s)))
       \<and> (\<forall>i < length (buffers s).
             Munmap (start (buffers s ! i)) (length_buffer (buffers s ! i)) \<in> set (fst (subdevice_dtor k s))
             \<and> (fst (munmap_ret k i) < 0 \<longrightarrow>
                  Warn ''munmap'' (snd (munmap_ret k i)) \<in> set (fst (subdevice_dtor k s))))"
proof -
  let ?before = "Ioctl (fd s) VIDIOC_STREAMOFF # (if r < 0 then [Warn ''VIDIOC_STREAMOFF'' errno] else [])
                @ unmap_loop k (buffers s) [0 ..< length (buffers s)] @ [Ioctl (fd s) (VIDIOC_REQBUFS 0)]"
  have ok: "subdevice_dtor k s =
       (?before @ Close (fd s) # (if fst (close_ret k) < 0 then [Warn ''close'' (snd (close_ret k))] else []),
        Returns ())"
    if "0 \<le> r'"
    using assms that by (simp add: subdevice_dtor_def subdevice_dtor_body_def noexcept_def Let_def)
  have body: "fst (subdevice_dtor_body k s) = ?before \<and> (\<exists>e. snd (subdevice_dtor_body k s) = Throws e)"
    if "r' < 0"
    using assms that by (simp add: subdevice_dtor_body_def Let_def throw_error_def)
  have bad: "fst (subdevice_dtor k s) = ?before \<and> snd (subdevice_dtor k s) = Aborts"
    if "r' < 0"
    using body [OF that] by (auto simp: subdevice_dtor_def noexcept_def)
  have pre: "\<exists>after. fst (subdevice_dtor k s) = ?before @ after"
    using ok bad by (cases "0 \<le> r'") auto
  have part1: "0 \<le> r' \<longrightarrow>
           subdevice_dtor k s =
             (Ioctl (fd s) VIDIOC_STREAMOFF # (if r < 0 then [Warn ''VIDIOC_STREAMOFF'' errno] else [])
                @ unmap_loop k (buffers s) [0 ..< length (buffers s)]
                @ [Ioctl (fd s) (VIDIOC_REQBUFS 0), Close (fd s)]
                @ (if fst (close_ret k) < 0 then [Warn ''close'' (snd (close_ret k))] else []),
              Returns ())"
    using ok by simp
  have part2: "r' < 0 \<longrightarrow>
           (\<exists>e. snd (subdevice_dtor_body k s) = Throws e) \<and> snd (subdevice_dtor k s) = Aborts
           \<and> Close (fd s) \<notin> set (fst (subdevice_dtor k s))"
    using bad body by (auto simp: unmap_loop_no_close)
  have part3: "Munmap (start (buffers s ! i)) (length_buffer (buffers s ! i)) \<in> set (fst (subdevice_dtor k s))
             \<and> (fst (munmap_ret k i) < 0 \<longrightarrow>
                  Warn ''munmap'' (snd (munmap_ret k i)) \<in> set (fst (subdevice_dtor k s)))"
    if "i < length (buffers s)" for i
  proof -
    from that have i: "i \<in> set [0 ..< length (buffers s)]" by simp
    from pre obtain after where "fst (subdevice_dtor k s) = ?before @ after" by blast
    then have "set (unmap_loop k (buffers s) [0 ..< length (buffers s)]) \<subseteq> set (fst (subdevice_dtor k s))"
      by auto
    with unmap_loop_unmaps [OF i] unmap_loop_warns [OF i] show ?thesis by blast
  qed
  from part1 part2 part3 show ?thesis by blast
qed

text \<open>
  Claim C3. Subdevice destruction never propagates a failure as fatal: a failed
  stream-off, failed unmappings and a failed \<open>close\<close> are warnings and destruction
  completes, and the release of the buffer pool raises on failure only if buffers had been
  requested. The code breaks this. A subdevice that never requested buffers is destroyed
  after the camera was unplugged: stream-off fails and is a warning, as claimed; the
  release of the buffer pool fails, the body throws as \<open>start_capture\<close> does at the same
  request, and since the throw is in a destructor the process is aborted; the descriptor
  is never closed. When the release succeeds, the same failures of stream-off, unmapping
  and \<open>close\<close> are warnings and the destructor returns.
\<close>

theorem subdevice_dtor_aborts_without_buffers:
  "buffers (test_subdevice 1 1 0) = []
   \<and> subdevice_dtor_body (test_teardown (- 1, 19)) (test_subdevice 1 1 0)
       = ([Ioctl 3 VIDIOC_STREAMOFF, Warn ''VIDIOC_STREAMOFF'' 19, Ioctl 3 (VIDIOC_REQBUFS 0)],
          Throws (Os_error ''VIDIOC_REQBUFS error '' 19))
   \<and> subdevice_dtor (test_teardown (- 1, 19)) (test_subdevice 1 1 0)
       = ([Ioctl 3 VIDIOC_STREAMOFF, Warn ''VIDIOC_STREAMOFF'' 19, Ioctl 3 (VIDIOC_REQBUFS 0)],
          Aborts)
   \<and> subdevice_dtor (test_teardown (0, 0)) (test_started 3 None)
       = ([Ioctl 3 VIDIOC_STREAMOFF, Warn ''VIDIOC_STREAMOFF'' 19, Munmap 4096 614400,
           Warn ''munmap'' 22, Munmap 8192 614400, Ioctl 3 (VIDIOC_REQBUFS 0), Close 3,
           Warn ''close'' 9], Returns ())"
  by code_simp

section \<open>The poll dispatcher\<close>

lemma passes_ready:
  assumes "passes (sub, k)" "ready k"
  obtains r errno r' errno' cb where
    "xioctl (dqbuf k) = Some (r, errno)" "0 \<le> r" "index k < length (buffers sub)"
    "callback sub = Some cb" "xioctl (requeue k) = Some (r', errno')" "0 \<le> r'"
  using assms by (auto simp: passes_def split: option.splits)

lemma poll_loop_passes_head:
  assumes "passes (sub, k)"
  shows "poll_loop ((sub, k) # rest)
           = (fst (poll_loop [(sub, k)]) @ fst (poll_loop rest), snd (poll_loop rest))"
proof (cases "ready k")
  case False
  then show ?thesis by simp
next
  case True
  with assms show ?thesis
    by (elim passes_ready) (simp_all add: xioctl_or_throw_def)
qed

lemma poll_loop_append_passes:
  "list_all passes pre \<Longrightarrow>
   poll_loop (pre @ rest) = (fst (poll_loop pre) @ fst (poll_loop rest), snd (poll_loop rest))"
proof (induction pre)
  case Nil
  then show ?case by simp
next
  case (Cons p pre)
  obtain sub k where p: "p = (sub, k)" by (cases p)
  from Cons.prems have ps: "passes (sub, k)" and rest: "list_all passes pre"
    by (simp_all add: p)
  have a: "poll_loop ((sub, k) # pre @ rest)
          = (fst (poll_loop [(sub, k)]) @ fst (poll_loop (pre @ rest)), snd (poll_loop (pre @ rest)))"
    by (rule poll_loop_passes_head [OF ps])
  have b: "poll_loop ((sub, k) # pre)
          = (fst (poll_loop [(sub, k)]) @ fst (poll_loop pre), snd (poll_loop pre))"
    by (rule poll_loop_passes_head [OF ps])
  have ih: "poll_loop (pre @ rest) = (fst (poll_loop pre) @ fst (poll_loop rest), snd (poll_loop rest))"
    by (rule Cons.IH [OF rest])
  show ?case
    by (simp only: p append_Cons a b ih fst_conv snd_conv append_assoc)
qed

lemma poll_loop_stops_head:
  assumes "\<not> passes (sub, k)"
  shows "poll_loop ((sub, k) # rest) = poll_loop [(sub, k)]"
proof -
  from assms have rdy: "ready k" by (auto simp: passes_def split: if_splits)
  show ?thesis
  proof (cases "xioctl (dqbuf k)")
    case None
    with rdy show ?thesis by simp
  next
    case (Some a)
    obtain r errno where a: "a = (r, errno)" by (cases a)
    show ?thesis
    proof (cases "0 \<le> r \<and> index k < length (buffers sub) \<and> callback sub \<noteq> None")
      case False
      with rdy Some a show ?thesis by (auto split: option.splits)
    next
      case True
      then obtain cb where cb: "callback sub = Some cb" by auto
      from True assms rdy Some a have
        "snd (xioctl_or_throw (fd sub) (VIDIOC_QBUF (index k)) ''VIDIOC_QBUF'' (requeue k)) \<noteq> Returns ()"
        by (auto simp: passes_def xioctl_or_throw_def throw_error_def split: option.splits)
      with True rdy Some a cb show ?thesis
        by (simp add: and_then_stops)
    qed
  qed
qed

lemma poll_loop_append_stops:
  "\<not> list_all passes pre \<Longrightarrow> poll_loop (pre @ rest) = poll_loop pre"
proof (induction pre)
  case Nil
  then show ?case by simp
next
  case (Cons p pre)
  obtain sub k where p: "p = (sub, k)" by (cases p)
  show ?case
  proof (cases "passes (sub, k)")
    case False
    from poll_loop_stops_head [OF False, of "pre @ rest"] poll_loop_stops_head [OF False, of pre]
    show ?thesis by (simp only: p append_Cons)
  next
    case True
    with Cons.prems have "\<not> list_all passes pre" by (simp add: p)
    then have ih: "poll_loop (pre @ rest) = poll_loop pre" by (rule Cons.IH)
    have a: "poll_loop ((sub, k) # pre @ rest)
            = (fst (poll_loop [(sub, k)]) @ fst (poll_loop (pre @ rest)), snd (poll_loop (pre @ rest)))"
      by (rule poll_loop_passes_head [OF True])
    have b: "poll_loop ((sub, k) # pre)
            = (fst (poll_loop [(sub, k)]) @ fst (poll_loop pre), snd (poll_loop pre))"
      by (rule poll_loop_passes_head [OF True])
    show ?thesis
      by (simp only: p append_Cons a b ih)
  qed
qed

lemma poll_loop_eagain_head:
  assumes "ready k" "xioctl (dqbuf k) = Some (r, EAGAIN)" "r < 0"
  shows "poll_loop ((sub, k) # post) = ([Ioctl (fd sub) VIDIOC_DQBUF], Returns ())"
  using assms by simp

lemma poll_loop_eagain:
  assumes "ready k" "xioctl (dqbuf k) = Some (r, EAGAIN)" "r < 0"
  shows "poll_loop (pre @ (sub, k) # post) =
           (if list_all passes pre then (fst (poll_loop pre) @ [Ioctl (fd sub) VIDIOC_DQBUF], Returns ())
            else poll_loop pre)"
proof (cases "list_all passes pre")
  case True
  then show ?thesis
    by (simp only: poll_loop_append_passes [OF True] poll_loop_eagain_head [OF assms] fst_conv snd_conv if_True)
next
  case False
  then show ?thesis
    by (simp only: poll_loop_append_stops [OF False] if_False)
qed

lemma poll_loop_frame_head:
  assumes "ready k" "xioctl (dqbuf k) = Some (r, errno)" "0 \<le> r"
    "index k < length (buffers sub)" "callback sub = Some cb"
  shows "\<exists>after out. poll_loop ((sub, k) # post) =
           ([Ioctl (fd sub) VIDIOC_DQBUF, Stdout_frame (fd sub) (bytesused k),
             Call1 (fd sub) cb (start (buffers sub ! index k)),
             Ioctl (fd sub) (VIDIOC_QBUF (index k))] @ after, out)"
proof (cases "snd (xioctl_or_throw (fd sub) (VIDIOC_QBUF (index k)) ''VIDIOC_QBUF'' (requeue k)) = Returns ()")
  case True
  with assms show ?thesis by simp
next
  case False
  with assms show ?thesis by (simp add: and_then_stops)
qed

lemma poll_loop_standalone_passes_head:
  assumes "passes (sub, k)"
  shows "poll_loop_standalone ((sub, k) # rest)
           = (fst (poll_loop_standalone [(sub, k)]) @ fst (poll_loop_standalone rest), snd (poll_loop_standalone rest))"
proof (cases "ready k")
  case False
  then show ?thesis by simp
next
  case True
  with assms show ?thesis
    by (elim passes_ready) (simp_all add: xioctl_or_throw_def)
qed

lemma poll_loop_standalone_append_passes:
  "list_all passes pre \<Longrightarrow>
   poll_loop_standalone (pre @ rest) = (fst (poll_loop_standalone pre) @ fst (poll_loop_standalone rest), snd (poll_loop_standalone rest))"
proof (induction pre)
  case Nil
  then show ?case by simp
next
  case (Cons p pre)
  obtain sub k where p: "p = (sub, k)" by (cases p)
  from Cons.prems have ps: "passes (sub, k)" and rest: "list_all passes pre"
    by (simp_all add: p)
  have a: "poll_loop_standalone ((sub, k) # pre @ rest)
          = (fst (poll_loop_standalone [(sub, k)]) @ fst (poll_loop_standalone (pre @ rest)), snd (poll_loop_standalone (pre @ rest)))"
    by (rule poll_loop_standalone_passes_head [OF ps])
  have b: "poll_loop_standalone ((sub, k) # pre)
          = (fst (poll_loop_standalone [(sub, k)]) @ fst (poll_loop_standalone pre), snd (poll_loop_standalone pre))"
    by (rule poll_loop_standalone_passes_head [OF ps])
  have ih: "poll_loop_standalone (pre @ rest) = (fst (poll_loop_standalone pre) @ fst (poll_loop_standalone rest), snd (poll_loop_standalone rest))"
    by (rule Cons.IH [OF rest])
  show ?case
    by (simp only: p append_Cons a b ih fst_conv snd_conv append_assoc)
qed

lemma poll_loop_standalone_stops_head:
  assumes "\<not> passes (sub, k)"
  shows "poll_loop_standalone ((sub, k) # rest) = poll_loop_standalone [(sub, k)]"
proof -
  from assms have rdy: "ready k" by (auto simp: passes_def split: if_splits)
  show ?thesis
  proof (cases "xioctl (dqbuf k)")
    case None
    with rdy show ?thesis by simp
  next
    case (Some a)
    obtain r errno where a: "a = (r, errno)" by (cases a)
    show ?thesis
    proof (cases "0 \<le> r \<and> index k < length (buffers sub) \<and> callback sub \<noteq> None")
      case False
      with rdy Some a show ?thesis by (auto split: option.splits)
    next
      case True
      then obtain cb where cb: "callback sub = Some cb" by auto
      from True assms rdy Some a have
        "snd (xioctl_or_throw (fd sub) (VIDIOC_QBUF (index k)) ''VIDIOC_QBUF'' (requeue k)) \<noteq> Returns ()"
        by (auto simp: passes_def xioctl_or_throw_def throw_error_def split: option.splits)
      with True rdy Some a cb show ?thesis
        by (simp add: and_then_stops)
    qed
  qed
qed

lemma poll_loop_standalone_append_stops:
  "\<not> list_all passes pre \<Longrightarrow> poll_loop_standalone (pre @ rest) = poll_loop_standalone pre"
proof (induction pre)
  case Nil
  then show ?case by simp
next
  case (Cons p pre)
  obtain sub k where p: "p = (sub, k)" by (cases p)
  show ?case
  proof (cases "passes (sub, k)")
    case False
    from poll_loop_standalone_stops_head [OF False, of "pre @ rest"] poll_loop_standalone_stops_head [OF False, of pre]
    show ?thesis by (simp only: p append_Cons)
  next
    case True
    with Cons.prems have "\<not> list_all passes pre" by (simp add: p)
    then have ih: "poll_loop_standalone (pre @ rest) = poll_loop_standalone pre" by (rule Cons.IH)
    have a: "poll_loop_standalone ((sub, k) # pre @ rest)
            = (fst (poll_loop_standalone [(sub, k)]) @ fst (poll_loop_standalone (pre @ rest)), snd (poll_loop_standalone (pre @ rest)))"
      by (rule poll_loop_standalone_passes_head [OF True])
    have b: "poll_loop_standalone ((sub, k) # pre)
            = (fst (poll_loop_standalone [(sub, k)]) @ fst (poll_loop_standalone pre), snd (poll_loop_standalone pre))"
      by (rule poll_loop_standalone_passes_head [OF True])
    show ?thesis
      by (simp only: p append_Cons a b ih)
  qed
qed

lemma poll_loop_standalone_eagain_head:
  assumes "ready k" "xioctl (dqbuf k) = Some (r, EAGAIN)" "r < 0"
  shows "poll_loop_standalone ((sub, k) # post) = ([Ioctl (fd sub) VIDIOC_DQBUF], Returns ())"
  using assms by simp

lemma poll_loop_standalone_eagain:
  assumes "ready k" "xioctl (dqbuf k) = Some (r, EAGAIN)" "r < 0"
  shows "poll_loop_standalone (pre @ (sub, k) # post) =
           (if list_all passes pre then (fst (poll_loop_standalone pre) @ [Ioctl (fd sub) VIDIOC_DQBUF], Returns ())
            else poll_loop_standalone pre)"
proof (cases "list_all passes pre")
  case True
  then show ?thesis
    by (simp only: poll_loop_standalone_append_passes [OF True] poll_loop_standalone_eagain_head [OF assms] fst_conv snd_conv if_True)
next
  case False
  then show ?thesis
    by (simp only: poll_loop_standalone_append_stops [OF False] if_False)
qed

lemma poll_loop_standalone_frame_head:
  assumes "ready k" "xioctl (dqbuf k) = Some (r, errno)" "0 \<le> r"
    "index k < length (buffers sub)" "callback sub = Some cb"
  shows "\<exists>after out. poll_loop_standalone ((sub, k) # post) =
           ([Ioctl (fd sub) VIDIOC_DQBUF,
             Call2 (fd sub) cb (start (buffers sub ! index k)) (bytesused k),
             Ioctl (fd sub) (VIDIOC_QBUF (index k))] @ after, out)"
proof (cases "snd (xioctl_or_throw (fd sub) (VIDIOC_QBUF (index k)) ''VIDIOC_QBUF'' (requeue k)) = Returns ()")
  case True
  with assms show ?thesis by simp
next
  case False
  with assms show ?thesis by (simp add: and_then_stops)
qed

lemma poll_selected:
  "0 \<le> fst selected \<Longrightarrow>
   poll selected subs =
     (Select (foldl max 0 (map (\<lambda>(sub, k). fd sub) subs) + 1) # fst (poll_loop subs),
      snd (poll_loop subs))"
  by (simp add: poll_def Let_def)

lemma poll_standalone_selected:
  "0 \<le> fst selected \<Longrightarrow>
   poll_standalone selected subs =
     (Select (foldl max 0 (map (\<lambda>(sub, k). fd sub) subs) + 1) # fst (poll_loop_standalone subs),
      snd (poll_loop_standalone subs))"
  by (simp add: poll_standalone_def Let_def)

text \<open>
  Claim C2, as the code has it. When \<open>select\<close> succeeds, the dispatch loop gets past the
  subdevices in front, and a ready subdevice with a registered callback has a buffer of
  its pool dequeued: the backend's dispatcher calls the callback with the address of that
  buffer only (the used-byte count is printed, not passed) and the stand-alone program's
  dispatcher calls it with the address and the used-byte count; in both, the next action
  after the call is the enqueue of the same slot.
\<close>

theorem poll_delivers_frame:
  assumes "0 \<le> fst selected" "list_all passes pre"
    and "ready k" "xioctl (dqbuf k) = Some (r, errno)" "0 \<le> r"
    and "index k < length (buffers sub)" "callback sub = Some cb"
  shows "(\<exists>n after. fst (poll selected (pre @ (sub, k) # post)) =
            Select n # fst (poll_loop pre)
              @ [Ioctl (fd sub) VIDIOC_DQBUF, Stdout_frame (fd sub) (bytesused k),
                 Call1 (fd sub) cb (start (buffers sub ! index k)),
                 Ioctl (fd sub) (VIDIOC_QBUF (index k))] @ after)
       \<and> (\<exists>n after. fst (poll_standalone selected (pre @ (sub, k) # post)) =
            Select n # fst (poll_loop_standalone pre)
              @ [Ioctl (fd sub) VIDIOC_DQBUF,
                 Call2 (fd sub) cb (start (buffers sub ! index k)) (bytesused k),
                 Ioctl (fd sub) (VIDIOC_QBUF (index k))] @ after)"
proof -
  from poll_loop_frame_head [OF assms(3-7), of post] obtain after out where
    h: "poll_loop ((sub, k) # post) =
           ([Ioctl (fd sub) VIDIOC_DQBUF, Stdout_frame (fd sub) (bytesused k),
             Call1 (fd sub) cb (start (buffers sub ! index k)),
             Ioctl (fd sub) (VIDIOC_QBUF (index k))] @ after, out)" by blast
  from poll_loop_standalone_frame_head [OF assms(3-7), of post] obtain after' out' where
    h': "poll_loop_standalone ((sub, k) # post) =
           ([Ioctl (fd sub) VIDIOC_DQBUF,
             Call2 (fd sub) cb (start (buffers sub ! index k)) (bytesused k),
             Ioctl (fd sub) (VIDIOC_QBUF (index k))] @ after', out')" by blast
  have "fst (poll selected (pre @ (sub, k) # post)) =
          Select (foldl max 0 (map (\<lambda>(sub, k). fd sub) (pre @ (sub, k) # post)) + 1) # fst (poll_loop pre)
              @ [Ioctl (fd sub) VIDIOC_DQBUF, Stdout_frame (fd sub) (bytesused k),
                 Call1 (fd sub) cb (start (buffers sub ! index k)),
                 Ioctl (fd sub) (VIDIOC_QBUF (index k))] @ after"
    by (simp only: poll_selected [OF assms(1)] poll_loop_append_passes [OF assms(2)] h fst_conv)
  moreover have "fst (poll_standalone selected (pre @ (sub, k) # post)) =
          Select (foldl max 0 (map (\<lambda>(sub, k). fd sub) (pre @ (sub, k) # post)) + 1) # fst (poll_loop_standalone pre)
              @ [Ioctl (fd sub) VIDIOC_DQBUF,
                 Call2 (fd sub) cb (start (buffers sub ! index k)) (bytesused k),
                 Ioctl (fd sub) (VIDIOC_QBUF (index k))] @ after'"
    by (simp only: poll_standalone_selected [OF assms(1)]
          poll_loop_standalone_append_passes [OF assms(2)] h' fst_conv)
  ultimately show ?thesis by blast
qed

text \<open>
  Claim C2, where it fails: the backend's dispatcher, with one ready subdevice whose
  dequeue yields slot 1. Whether the kernel reports 1000 or 2000 used bytes, the callback
  is called with the address 8192 and nothing else.
\<close>

theorem poll_callback_without_byte_count:
  "poll (1, 0) [(test_started 3 (Some 7), test_frame 1 1000)]
     = ([Select 4, Ioctl 3 VIDIOC_DQBUF, Stdout_frame 3 1000, Call1 3 7 8192, Ioctl 3 (VIDIOC_QBUF 1)],
        Returns ())
   \<and> filter is_call (fst (poll (1, 0) [(test_started 3 (Some 7), test_frame 1 1000)])) = [Call1 3 7 8192]
   \<and> filter is_call (fst (poll (1, 0) [(test_started 3 (Some 7), test_frame 1 2000)])) = [Call1 3 7 8192]"
  by code_simp

theorem poll_delivers_frame_witness:
  "(0::int) \<le> fst (1, 0) \<and> list_all passes [(test_started 3 (Some 7), test_frame 0 500)]
   \<and> ready (test_frame 1 1000) \<and> xioctl (dqbuf (test_frame 1 1000)) = Some (0, 0)
   \<and> index (test_frame 1 1000) < length (buffers (test_started 4 (Some 8)))
   \<and> callback (test_started 4 (Some 8)) = Some 8
   \<and> fst (poll (1, 0) [(test_started 3 (Some 7), test_frame 0 500),
                         (test_started 4 (Some 8), test_frame 1 1000)])
       = [Select 5, Ioctl 3 VIDIOC_DQBUF, Stdout_frame 3 500, Call1 3 7 4096, Ioctl 3 (VIDIOC_QBUF 0),
          Ioctl 4 VIDIOC_DQBUF, Stdout_frame 4 1000, Call1 4 8 8192, Ioctl 4 (VIDIOC_QBUF 1)]
   \<and> fst (poll_standalone (1, 0) [(test_started 3 (Some 7), test_frame 0 500),
                                    (test_started 4 (Some 8), test_frame 1 1000)])
       = [Select 5, Ioctl 3 VIDIOC_DQBUF, Call2 3 7 4096 500, Ioctl 3 (VIDIOC_QBUF 0),
          Ioctl 4 VIDIOC_DQBUF, Call2 4 8 8192 1000, Ioctl 4 (VIDIOC_QBUF 1)]"
proof -
  have h1: "(0::int) \<le> fst (1, 0)" by simp
  have h2: "list_all passes [(test_started 3 (Some 7), test_frame 0 500)]" by code_simp
  have h3: "ready (test_frame 1 1000)" by code_simp
  have h4: "xioctl (dqbuf (test_frame 1 1000)) = Some (0, 0)" by code_simp
  have h5: "index (test_frame 1 1000) < length (buffers (test_started 4 (Some 8)))" by code_simp
  have h6: "callback (test_started 4 (Some 8)) = Some 8" by code_simp
  have e1: "fst (poll (1, 0) [(test_started 3 (Some 7), test_frame 0 500),
                         (test_started 4 (Some 8), test_frame 1 1000)])
       = [Select 5, Ioctl 3 VIDIOC_DQBUF, Stdout_frame 3 500, Call1 3 7 4096, Ioctl 3 (VIDIOC_QBUF 0),
          Ioctl 4 VIDIOC_DQBUF, Stdout_frame 4 1000, Call1 4 8 8192, Ioctl 4 (VIDIOC_QBUF 1)]"
    by code_simp
  have e2: "fst (poll_standalone (1, 0) [(test_started 3 (Some 7), test_frame 0 500),
                                    (test_started 4 (Some 8), test_frame 1 1000)])
       = [Select 5, Ioctl 3 VIDIOC_DQBUF, Call2 3 7 4096 500, Ioctl 3 (VIDIOC_QBUF 0),
          Ioctl 4 VIDIOC_DQBUF, Call2 4 8 8192 1000, Ioctl 4 (VIDIOC_QBUF 1)]"
    by code_simp
  note poll_delivers_frame [OF h1 h2 h3 h4 _ h5 h6, of "[]"]
  with h1 h2 h3 h4 h5 h6 e1 e2 show ?thesis by simp
qed

lemma poll_loop_single_calls_on:
  assumes "fd sub \<noteq> f" "ev \<in> set (fst (poll_loop [(sub, k)]))"
  shows "\<not> is_call_on f ev"
  using assms
  by (auto simp: is_call_on_def and_then_def split: if_splits option.splits outcome.splits)

lemma poll_loop_calls_on:
  "list_all (\<lambda>p. fd (fst p) \<noteq> f) subs \<Longrightarrow> filter (is_call_on f) (fst (poll_loop subs)) = []"
proof (induction subs)
  case Nil
  then show ?case by simp
next
  case (Cons p subs)
  obtain sub k where p: "p = (sub, k)" by (cases p)
  from Cons.prems have ne: "fd sub \<noteq> f" and rest: "list_all (\<lambda>p. fd (fst p) \<noteq> f) subs"
    by (simp_all add: p)
  from Cons.IH [OF rest] have ih: "\<forall>ev \<in> set (fst (poll_loop subs)). \<not> is_call_on f ev"
    by (simp add: filter_empty_conv)
  have "\<not> is_call_on f ev" if "ev \<in> set (fst (poll_loop ((sub, k) # subs)))" for ev
  proof (cases "passes (sub, k)")
    case True
    have eq: "fst (poll_loop ((sub, k) # subs)) = fst (poll_loop [(sub, k)]) @ fst (poll_loop subs)"
      by (simp only: poll_loop_passes_head [OF True, of subs] fst_conv)
    from that have "ev \<in> set (fst (poll_loop [(sub, k)]) @ fst (poll_loop subs))"
      by (simp only: eq)
    then have "ev \<in> set (fst (poll_loop [(sub, k)])) \<or> ev \<in> set (fst (poll_loop subs))"
      by (simp only: set_append Un_iff)
    with poll_loop_single_calls_on [OF ne] ih show ?thesis by blast
  next
    case False
    have "poll_loop ((sub, k) # subs) = poll_loop [(sub, k)]"
      by (rule poll_loop_stops_head [OF False])
    with that have "ev \<in> set (fst (poll_loop [(sub, k)]))" by (simp only:)
    then show ?thesis by (rule poll_loop_single_calls_on [OF ne])
  qed
  then have "\<forall>ev \<in> set (fst (poll_loop (p # subs))). \<not> is_call_on f ev"
    by (simp only: p) blast
  then show ?case by (simp only: filter_empty_conv) 
qed

text \<open>
  Claim C7. When the dequeue on a ready subdevice reports \<open>EAGAIN\<close>, the callbacks called
  in that round are those called for the subdevices in front of it; no callback is called
  on its descriptor (the subdevices in front having other descriptors); and the dispatcher
  returns normally if the loop got to this subdevice, and otherwise ends as it ended at a
  subdevice in front: the \<open>EAGAIN\<close> itself never throws.
\<close>

theorem poll_eagain_no_callback:
  assumes "0 \<le> fst selected" "ready k" "xioctl (dqbuf k) = Some (r, EAGAIN)" "r < 0"
  shows "filter is_call (fst (poll selected (pre @ (sub, k) # post))) = filter is_call (fst (poll_loop pre))
       \<and> (list_all (\<lambda>p. fd (fst p) \<noteq> fd sub) pre \<longrightarrow>
            filter (is_call_on (fd sub)) (fst (poll selected (pre @ (sub, k) # post))) = [])
       \<and> snd (poll selected (pre @ (sub, k) # post))
           = (if list_all passes pre then Returns () else snd (poll_loop pre))"
proof -
  have eq: "poll_loop (pre @ (sub, k) # post) =
           (if list_all passes pre then (fst (poll_loop pre) @ [Ioctl (fd sub) VIDIOC_DQBUF], Returns ())
            else poll_loop pre)"
    by (rule poll_loop_eagain [OF assms(2-4)])
  have "filter (is_call_on (fd sub)) (fst (poll selected (pre @ (sub, k) # post))) = []"
    if "list_all (\<lambda>p. fd (fst p) \<noteq> fd sub) pre"
    using poll_loop_calls_on [OF that] eq
    by (simp add: poll_selected [OF assms(1)] is_call_on_def)
  with eq show ?thesis
    by (simp add: poll_selected [OF assms(1)] is_call_def)
qed

theorem poll_eagain_no_callback_witness:
  "(0::int) \<le> fst (2, 0) \<and> ready test_eagain \<and> xioctl (dqbuf test_eagain) = Some (- 1, EAGAIN)
   \<and> (- 1 :: int) < 0
   \<and> list_all (\<lambda>p. fd (fst p) \<noteq> fd (test_started 4 (Some 8))) [(test_started 3 (Some 7), test_frame 0 500)]
   \<and> filter is_call (fst (poll (2, 0) [(test_started 3 (Some 7), test_frame 0 500),
                         (test_started 4 (Some 8), test_eagain), (test_started 5 (Some 9), test_frame 1 1000)]))
       = [Call1 3 7 4096]
   \<and> filter (is_call_on 4) (fst (poll (2, 0) [(test_started 3 (Some 7), test_frame 0 500),
                         (test_started 4 (Some 8), test_eagain), (test_started 5 (Some 9), test_frame 1 1000)]))
       = []
   \<and> snd (poll (2, 0) [(test_started 3 (Some 7), test_frame 0 500),
                         (test_started 4 (Some 8), test_eagain), (test_started 5 (Some 9), test_frame 1 1000)])
       = Returns ()"
proof -
  have h1: "(0::int) \<le> fst (2, 0)" by simp
  have h2: "ready test_eagain" by code_simp
  have h3: "xioctl (dqbuf test_eagain) = Some (- 1, EAGAIN)" by code_simp
  have h4: "(- 1 :: int) < 0" by simp
  have h5: "list_all (\<lambda>p. fd (fst p) \<noteq> fd (test_started 4 (Some 8))) [(test_started 3 (Some 7), test_frame 0 500)]"
    by code_simp
  have p: "list_all passes [(test_started 3 (Some 7), test_frame 0 500)]" by code_simp
  have e: "filter is_call (fst (poll_loop [(test_started 3 (Some 7), test_frame 0 500)])) = [Call1 3 7 4096]"
    by code_simp
  have f: "fd (test_started 4 (Some 8)) = 4" by code_simp
  from poll_eagain_no_callback [OF h1 h2 h3 h4, of "[(test_started 3 (Some 7), test_frame 0 500)]" "test_started 4 (Some 8)"
      "[(test_started 5 (Some 9), test_frame 1 1000)]"] h1 h2 h3 h4 h5 p e f
  show ?thesis by simp
qed

text \<open>
  Claim C9. When the dequeue on a ready subdevice of the list reports \<open>EAGAIN\<close>, the
  dispatch loop of the backend and that of the stand-alone program do what they do on the
  list cut off behind that subdevice: the subdevices behind it take no part, ready or not.
  If the loop gets to the subdevice, the failed dequeue is the last action of the round
  and the loop returns. The same holds of the two dispatchers as wholes, after their
  \<open>select\<close>.
\<close>

theorem poll_eagain_ends_round:
  assumes "ready k" "xioctl (dqbuf k) = Some (r, EAGAIN)" "r < 0"
  shows "poll_loop (pre @ (sub, k) # post) = poll_loop (pre @ [(sub, k)])
       \<and> poll_loop_standalone (pre @ (sub, k) # post) = poll_loop_standalone (pre @ [(sub, k)])
       \<and> (list_all passes pre \<longrightarrow>
            poll_loop (pre @ (sub, k) # post)
              = (fst (poll_loop pre) @ [Ioctl (fd sub) VIDIOC_DQBUF], Returns ())
          \<and> poll_loop_standalone (pre @ (sub, k) # post)
              = (fst (poll_loop_standalone pre) @ [Ioctl (fd sub) VIDIOC_DQBUF], Returns ()))
       \<and> (0 \<le> fst selected \<longrightarrow>
            tl (fst (poll selected (pre @ (sub, k) # post))) = fst (poll_loop (pre @ [(sub, k)]))
          \<and> snd (poll selected (pre @ (sub, k) # post)) = snd (poll_loop (pre @ [(sub, k)]))
          \<and> tl (fst (poll_standalone selected (pre @ (sub, k) # post)))
              = fst (poll_loop_standalone (pre @ [(sub, k)]))
          \<and> snd (poll_standalone selected (pre @ (sub, k) # post))
              = snd (poll_loop_standalone (pre @ [(sub, k)])))"
proof -
  have loops: "poll_loop (pre @ (sub, k) # post) = poll_loop (pre @ [(sub, k)])"
    "poll_loop_standalone (pre @ (sub, k) # post) = poll_loop_standalone (pre @ [(sub, k)])"
    by (simp_all only: poll_loop_eagain [OF assms] poll_loop_standalone_eagain [OF assms])
  have reached: "poll_loop (pre @ (sub, k) # post)
              = (fst (poll_loop pre) @ [Ioctl (fd sub) VIDIOC_DQBUF], Returns ())
          \<and> poll_loop_standalone (pre @ (sub, k) # post)
              = (fst (poll_loop_standalone pre) @ [Ioctl (fd sub) VIDIOC_DQBUF], Returns ())"
    if "list_all passes pre"
    using that
    by (simp only: poll_loop_eagain [OF assms] poll_loop_standalone_eagain [OF assms] if_True simp_thms)
  have whole: "tl (fst (poll selected (pre @ (sub, k) # post))) = fst (poll_loop (pre @ [(sub, k)]))
          \<and> snd (poll selected (pre @ (sub, k) # post)) = snd (poll_loop (pre @ [(sub, k)]))
          \<and> tl (fst (poll_standalone selected (pre @ (sub, k) # post)))
              = fst (poll_loop_standalone (pre @ [(sub, k)]))
          \<and> snd (poll_standalone selected (pre @ (sub, k) # post))
              = snd (poll_loop_standalone (pre @ [(sub, k)]))"
    if "0 \<le> fst selected"
    by (simp only: poll_selected [OF that] poll_standalone_selected [OF that] loops
          fst_conv snd_conv list.sel simp_thms)
  from loops reached whole show ?thesis by blast
qed

theorem poll_eagain_ends_round_witness:
  "ready test_eagain \<and> xioctl (dqbuf test_eagain) = Some (- 1, EAGAIN) \<and> (- 1 :: int) < 0
   \<and> list_all passes [(test_started 3 (Some 7), test_frame 0 500)]
   \<and> poll_loop ([(test_started 3 (Some 7), test_frame 0 500)]
                 @ (test_started 4 (Some 8), test_eagain) # [(test_started 5 (Some 9), test_frame 1 1000)])
       = ([Ioctl 3 VIDIOC_DQBUF, Stdout_frame 3 500, Call1 3 7 4096, Ioctl 3 (VIDIOC_QBUF 0),
           Ioctl 4 VIDIOC_DQBUF], Returns ())
   \<and> poll_loop_standalone ([(test_started 3 (Some 7), test_frame 0 500)]
                 @ (test_started 4 (Some 8), test_eagain) # [(test_started 5 (Some 9), test_frame 1 1000)])
       = ([Ioctl 3 VIDIOC_DQBUF, Call2 3 7 4096 500, Ioctl 3 (VIDIOC_QBUF 0),
           Ioctl 4 VIDIOC_DQBUF], Returns ())"
proof -
  have h2: "ready test_eagain" by code_simp
  have h3: "xioctl (dqbuf test_eagain) = Some (- 1, EAGAIN)" by code_simp
  have h4: "(- 1 :: int) < 0" by simp
  have p: "list_all passes [(test_started 3 (Some 7), test_frame 0 500)]" by code_simp
  have e: "fst (poll_loop [(test_started 3 (Some 7), test_frame 0 500)])
             = [Ioctl 3 VIDIOC_DQBUF, Stdout_frame 3 500, Call1 3 7 4096, Ioctl 3 (VIDIOC_QBUF 0)]"
    by code_simp
  have e': "fst (poll_loop_standalone [(test_started 3 (Some 7), test_frame 0 500)])
             = [Ioctl 3 VIDIOC_DQBUF, Call2 3 7 4096 500, Ioctl 3 (VIDIOC_QBUF 0)]"
    by code_simp
  have f: "fd (test_started 4 (Some 8)) = 4" by code_simp
  note c = poll_eagain_ends_round [OF h2 h3 h4, of "[(test_started 3 (Some 7), test_frame 0 500)]"
      "test_started 4 (Some 8)" "[(test_started 5 (Some 9), test_frame 1 1000)]"]
  from c p have r1: "poll_loop ([(test_started 3 (Some 7), test_frame 0 500)]
                 @ (test_started 4 (Some 8), test_eagain) # [(test_started 5 (Some 9), test_frame 1 1000)])
       = (fst (poll_loop [(test_started 3 (Some 7), test_frame 0 500)])
            @ [Ioctl (fd (test_started 4 (Some 8))) VIDIOC_DQBUF], Returns ())"
    by blast
  from c p have r2: "poll_loop_standalone ([(test_started 3 (Some 7), test_frame 0 500)]
                 @ (test_started 4 (Some 8), test_eagain) # [(test_started 5 (Some 9), test_frame 1 1000)])
       = (fst (poll_loop_standalone [(test_started 3 (Some 7), test_frame 0 500)])
            @ [Ioctl (fd (test_started 4 (Some 8))) VIDIOC_DQBUF], Returns ())"
    by blast
  show ?thesis
    unfolding r1 r2 e e' f using h2 h3 h4 p by simp
qed

section \<open>The device\<close>

text \<open>
  Claim C10. When the claim of the USB interface fails (negative status),
  \<open>claim_interface\<close> throws the error naming the status and the device is unchanged, its
  list of claimed interfaces included; when it succeeds the interface number is appended
  to that list.
\<close>

theorem claim_interface_atomic:
  "(status < 0 \<longrightarrow>
      claim_interface names status n d
        = (d, Throws (Runtime_error (''libusb_claim_interface(...) returned '' @ names status))))
   \<and> (0 \<le> status \<longrightarrow>
      claim_interface names status n d
        = (d\<lparr>claimed_interfaces := claimed_interfaces d @ [n]\<rparr>, Returns ()))"
  by (simp add: claim_interface_def)

theorem claim_interface_atomic_witness:
  "(- 6 :: int) < 0
   \<and> claim_interface (\<lambda>e. ''LIBUSB_ERROR_BUSY'') (- 6) 2 test_device
        = (test_device, Throws (Runtime_error ''libusb_claim_interface(...) returned LIBUSB_ERROR_BUSY''))
   \<and> (0 :: int) \<le> 0
   \<and> claimed_interfaces (fst (claim_interface (\<lambda>e. ''LIBUSB_ERROR_BUSY'') 0 2 test_device)) = [2]"
  using claim_interface_atomic [of "- 6" "\<lambda>e. ''LIBUSB_ERROR_BUSY''" 2 test_device]
    claim_interface_atomic [of 0 "\<lambda>e. ''LIBUSB_ERROR_BUSY''" 2 test_device]
  by (simp add: test_device_def device_ctor_def)

text \<open>
  Claim C8. With no thread running \<open>stop_streaming\<close> does nothing. With a thread
  running, and \<open>join\<close> returning, it stores true to the stop flag, joins (the last action
  of the thread's part), and stores false. After it has returned the thread is not
  joinable, the flag is clear, a second \<open>stop_streaming\<close> does nothing, and
  \<open>start_streaming\<close>, once the subdevices have started, installs a new thread.
\<close>

theorem stop_streaming_lifecycle:
  "(thread d = Not_joinable \<longrightarrow> stop_streaming inflight d = ([], d, Returns ()))
   \<and> (thread d = Joinable subs \<and> thread_rest True subs inflight = (ev, Returns ()) \<longrightarrow>
        stop_streaming inflight d
          = (Store_stop True # ev @ [Store_stop False], d\<lparr>thread := Not_joinable, stop := False\<rparr>,
             Returns ())
        \<and> (\<exists>polled. ev = polled @ [Join]))
   \<and> (stop_streaming inflight d = (ev', d', Returns ()) \<longrightarrow>
        thread d' = Not_joinable
        \<and> (thread d \<noteq> Not_joinable \<longrightarrow> \<not> stop d')
        \<and> stop_streaming inflight' d' = ([], d', Returns ())
        \<and> (start_loop answers 0 (subdevices d') = (ev'', subs', active, Returns ()) \<longrightarrow>
             start_streaming answers d' = (ev'', d'\<lparr>subdevices := subs', thread := Joinable active\<rparr>, Returns ())))"
proof -
  have idle: "stop_streaming inflight d = ([], d, Returns ())" if "thread d = Not_joinable"
    using that by (simp add: stop_streaming_def)
  have joined: "stop_streaming inflight d
          = (Store_stop True # ev @ [Store_stop False], d\<lparr>thread := Not_joinable, stop := False\<rparr>,
             Returns ())
        \<and> (\<exists>polled. ev = polled @ [Join])"
    if "thread d = Joinable subs" "thread_rest True subs inflight = (ev, Returns ())"
  proof -
    from that(2) have "\<exists>polled. ev = polled @ [Join]"
      by (auto simp: thread_rest_def Let_def split: outcome.splits)
    with that show ?thesis by (simp add: stop_streaming_def Let_def)
  qed
  have after: "thread d' = Not_joinable \<and> (thread d \<noteq> Not_joinable \<longrightarrow> \<not> stop d')"
    if "stop_streaming inflight d = (ev', d', Returns ())"
  proof (cases "thread d")
    case Not_joinable
    with that show ?thesis by (simp add: stop_streaming_def)
  next
    case (Joinable subs)
    obtain e out where r: "thread_rest True subs inflight = (e, out)"
      by (cases "thread_rest True subs inflight")
    show ?thesis
    proof (cases out)
      case (Returns u)
      with that Joinable r show ?thesis by (auto simp: stop_streaming_def Let_def)
    qed (use that Joinable r in \<open>simp_all add: stop_streaming_def Let_def\<close>)
  qed
  have again: "stop_streaming inflight' d' = ([], d', Returns ())
        \<and> (start_loop answers 0 (subdevices d') = (ev'', subs', active, Returns ()) \<longrightarrow>
             start_streaming answers d' = (ev'', d'\<lparr>subdevices := subs', thread := Joinable active\<rparr>, Returns ()))"
    if "thread d' = Not_joinable"
    using that by (simp add: stop_streaming_def start_streaming_def)
  from idle joined after again show ?thesis by blast
qed

theorem stop_streaming_lifecycle_witness:
  "thread test_streaming = Joinable [test_started 3 (Some 7)]
   \<and> stop_streaming (Some ((1, 0), \<lambda>i. test_frame 0 500)) test_streaming
       = ([Store_stop True, Select 4, Ioctl 3 VIDIOC_DQBUF, Stdout_frame 3 500, Call1 3 7 4096,
           Ioctl 3 (VIDIOC_QBUF 0), Join, Store_stop False],
          test_streaming\<lparr>thread := Not_joinable, stop := False\<rparr>, Returns ())
   \<and> stop_streaming None (test_streaming\<lparr>thread := Not_joinable, stop := False\<rparr>)
       = ([], test_streaming\<lparr>thread := Not_joinable, stop := False\<rparr>, Returns ())
   \<and> snd (snd (start_streaming (\<lambda>i. test_capture 2) (test_streaming\<lparr>thread := Not_joinable, stop := False\<rparr>)))
       = Returns ()
   \<and> thread (fst (snd (start_streaming (\<lambda>i. test_capture 2)
                 (test_streaming\<lparr>thread := Not_joinable, stop := False\<rparr>))))
       = Joinable [test_started 3 (Some 7)]"
proof -
  let ?d' = "test_streaming\<lparr>thread := Not_joinable, stop := False\<rparr>"
  have h1: "thread test_streaming = Joinable [test_started 3 (Some 7)]" by code_simp
  have h2: "thread_rest True [test_started 3 (Some 7)] (Some ((1, 0), \<lambda>i. test_frame 0 500))
        = ([Select 4, Ioctl 3 VIDIOC_DQBUF, Stdout_frame 3 500, Call1 3 7 4096,
            Ioctl 3 (VIDIOC_QBUF 0), Join], Returns ())"
    by code_simp
  have h3: "start_loop (\<lambda>i. test_capture 2) 0 (subdevices ?d')
        = ([Ioctl 3 VIDIOC_S_FMT, Ioctl 3 VIDIOC_G_PARM, Ioctl 3 VIDIOC_S_PARM, Ioctl 3 (VIDIOC_REQBUFS 4),
            Ioctl 3 (VIDIOC_QUERYBUF 0), Mmap 3 0, Ioctl 3 (VIDIOC_QUERYBUF 1), Mmap 3 1,
            Ioctl 3 (VIDIOC_QBUF 0), Ioctl 3 (VIDIOC_QBUF 1), Ioctl 3 VIDIOC_STREAMON],
           [test_started 3 (Some 7)], [test_started 3 (Some 7)], Returns ())"
    by code_simp
  note t = stop_streaming_lifecycle [where d = test_streaming and subs = "[test_started 3 (Some 7)]"
      and inflight = "Some ((1, 0), \<lambda>i. test_frame 0 500)"
      and ev = "[Select 4, Ioctl 3 VIDIOC_DQBUF, Stdout_frame 3 500, Call1 3 7 4096,
            Ioctl 3 (VIDIOC_QBUF 0), Join]"
      and ev' = "[Store_stop True, Select 4, Ioctl 3 VIDIOC_DQBUF, Stdout_frame 3 500, Call1 3 7 4096,
           Ioctl 3 (VIDIOC_QBUF 0), Join, Store_stop False]"
      and d' = ?d' and inflight' = None and answers = "\<lambda>i. test_capture 2"
      and ev'' = "[Ioctl 3 VIDIOC_S_FMT, Ioctl 3 VIDIOC_G_PARM, Ioctl 3 VIDIOC_S_PARM, Ioctl 3 (VIDIOC_REQBUFS 4),
            Ioctl 3 (VIDIOC_QUERYBUF 0), Mmap 3 0, Ioctl 3 (VIDIOC_QUERYBUF 1), Mmap 3 1,
            Ioctl 3 (VIDIOC_QBUF 0), Ioctl 3 (VIDIOC_QBUF 1), Ioctl 3 VIDIOC_STREAMON]"
      and subs' = "[test_started 3 (Some 7)]" and active = "[test_started 3 (Some 7)]"]
  from t h1 h2 have r1: "stop_streaming (Some ((1, 0), \<lambda>i. test_frame 0 500)) test_streaming
       = ([Store_stop True, Select 4, Ioctl 3 VIDIOC_DQBUF, Stdout_frame 3 500, Call1 3 7 4096,
           Ioctl 3 (VIDIOC_QBUF 0), Join, Store_stop False], ?d', Returns ())"
    by simp
  from t r1 have r2: "stop_streaming None ?d' = ([], ?d', Returns ())" by blast
  from t r1 h3 have r3: "start_streaming (\<lambda>i. test_capture 2) ?d'
       = ([Ioctl 3 VIDIOC_S_FMT, Ioctl 3 VIDIOC_G_PARM, Ioctl 3 VIDIOC_S_PARM, Ioctl 3 (VIDIOC_REQBUFS 4),
            Ioctl 3 (VIDIOC_QUERYBUF 0), Mmap 3 0, Ioctl 3 (VIDIOC_QUERYBUF 1), Mmap 3 1,
            Ioctl 3 (VIDIOC_QBUF 0), Ioctl 3 (VIDIOC_QBUF 1), Ioctl 3 VIDIOC_STREAMON],
          ?d'\<lparr>subdevices := [test_started 3 (Some 7)], thread := Joinable [test_started 3 (Some 7)]\<rparr>,
          Returns ())"
    by blast
  from h1 r1 r2 r3 show ?thesis by simp
qed

end
